theory Spec2Isabelle
  imports Complex_Main "HOL-Library.Word" "HOL-Library.Sublist"
begin

section \<open>Push-to-talk dictation: the recording state machine of voice_to_text.py\<close>

text \<open>
  The class \<open>DictationTranscriber\<close> is embedded as a record of its fields and its
  methods as functions from state to state. Everything the methods ask of the outside
  world (the audio device, the cue player, the speech engine, the keyboard) is answered
  by an environment record, and every call they make to the outside world is appended to
  a trace, in program order. A call that the source guards with \<open>try\<close> may raise,
  and the environment says whether it does; the calls that the source leaves outside
  every \<open>try\<close> block (\<open>print\<close>, \<open>time.sleep\<close>, \<open>pyaudio.PyAudio()\<close>,
  \<open>self.p.terminate()\<close>, \<open>Thread.start()\<close>) are taken to return normally.
\<close>

subsection \<open>Configuration\<close>

definition CHUNK :: nat where
  "CHUNK = 1024"

definition RATE :: nat where
  "RATE = 16000"

datatype key = F9 | OtherKey nat

definition HOTKEY :: key where
  "HOTKEY = F9"

subsection \<open>Data\<close>

type_synonym byte = "8 word"

text \<open>A chunk is the \<open>bytes\<close> object that \<open>stream.read\<close> returns.\<close>

type_synonym chunk = "byte list"

type_synonym int16 = "16 word"

text \<open>
  \<open>stream.read\<close> returns a chunk, raises \<open>OSError\<close>, or raises some other
  exception; \<open>_record\<close> has one handler for each of the last two.
\<close>

datatype read_result = Data chunk | OSError | OtherError

text \<open>The lines the program prints, one constructor for each \<open>print\<close> call.\<close>

datatype message =
    BeepWaking
  | BeepReady
  | RecordingNow
  | ErrorOpeningStream
  | AudioStreamError
  | UnexpectedError
  | RecordingStopped
  | RecordingHadErrors
  | NoAudioRecorded
  | TooQuiet
  | Processing nat
  | Transcribed string
  | NoSpeechInAudio
  | ErrorDuringTranscription
  | TextTyped
  | ErrorTypingText
  | TextWas string
  | ErrorHandlingHotkey

text \<open>
  The calls to the outside world. \<open>Sleep\<close> carries the duration in milliseconds,
  \<open>Transcribe\<close> the waveform handed to the engine, \<open>TypeText\<close> the string handed to
  the keyboard controller.
\<close>

datatype effect =
    Print message
  | CreatePyAudio
  | OpenStream
  | Cue
  | Sleep nat
  | StreamRead
  | ThreadStart
  | StopStream
  | CloseStream
  | Terminate
  | Transcribe "rat list"
  | TypeText string
  | PrintTraceback

text \<open>
  The fields of the object (\<open>stream_set\<close> and \<open>p_set\<close> say whether \<open>self.stream\<close>
  and \<open>self.p\<close> hold an object rather than \<open>None\<close>), the capture threads, and the
  trace. \<open>thread_alive\<close> says that the thread which the last \<open>start_recording\<close>
  started exists and sits in \<open>stream.read\<close>, and \<open>consecutive_errors\<close> is the local
  variable of its loop. \<open>stop_recording\<close> does not join that thread, so it can outlive
  its session: \<open>stale\<close> holds the local counters of the threads of earlier sessions
  that were still alive when a later \<open>start_recording\<close> started a further thread. They
  run the same loop on the same object.
\<close>

record transcriber =
  is_recording :: bool
  audio_frames :: "chunk list"
  recording_error :: bool
  stream_set :: bool
  p_set :: bool
  thread_alive :: bool
  consecutive_errors :: nat
  stale :: "nat list"
  trace :: "effect list"

text \<open>
  What the capture thread does while \<open>stop_recording\<close> sleeps for 0.1 s after it has
  cleared \<open>is_recording\<close>: its read is still blocked when the sleep ends, or the read
  returns (and the loop body runs once more before the loop condition is tested), or the
  thread was between two reads and leaves the loop at once.
\<close>

datatype drain = StillReading | ReadReturned read_result | LeftAtCheck

text \<open>
  The environment: the answers of the outside world to one call of \<open>start_recording\<close>
  or \<open>stop_recording\<close>. A \<open>False\<close> or a \<open>None\<close> stands for the call raising an
  exception. \<open>float32_mean\<close> is the value that numpy's \<open>mean\<close> returns for an array
  of float32 numbers: a float32 number, rounded as numpy rounds it, or \<open>nan\<close>
  (\<open>None\<close>) for the empty array.
\<close>

record env =
  open_ok :: bool
  cue_ok :: "nat \<Rightarrow> bool"
  warm_read :: "nat \<Rightarrow> read_result"
  drained :: drain
  stop_stream_ok :: bool
  close_ok :: bool
  float32_mean :: "rat list \<Rightarrow> rat option"
  engine :: "rat list \<Rightarrow> string list option"
  type_ok :: "string \<Rightarrow> bool"

definition init :: transcriber where
  "init = \<lparr>is_recording = False, audio_frames = [], recording_error = False,
     stream_set = False, p_set = False, thread_alive = False, consecutive_errors = 0,
     stale = [], trace = []\<rparr>"

definition emit :: "effect \<Rightarrow> transcriber \<Rightarrow> transcriber" where
  "emit e s = s\<lparr>trace := trace s @ [e]\<rparr>"

subsection \<open>start_recording\<close>

text \<open>\<open>int(RATE / CHUNK * 1.0)\<close>: true division, then truncation.\<close>

definition warmup_chunks :: nat where
  "warmup_chunks = nat \<lfloor>(of_nat RATE / of_nat CHUNK * 1 :: rat)\<rfloor>"

text \<open>One pass of the warm-up loop: the read, and \<open>except: pass\<close> around it.\<close>

definition warmup_read :: "read_result \<Rightarrow> transcriber \<Rightarrow> transcriber" where
  "warmup_read r s =
     (let s1 = emit StreamRead s
      in case r of Data d \<Rightarrow> s1 | OSError \<Rightarrow> s1 | OtherError \<Rightarrow> s1)"

definition warmup :: "env \<Rightarrow> transcriber \<Rightarrow> transcriber" where
  "warmup ev s = foldl (\<lambda>t i. warmup_read (warm_read ev i) t) s [0..<warmup_chunks]"

text \<open>
  \<open>record_thread.start()\<close>: a further thread, with its own counter at 0. A thread of
  an earlier session that is still alive stays alive, with its counter.
\<close>

definition thread_start :: "transcriber \<Rightarrow> transcriber" where
  "thread_start s =
     emit ThreadStart
       (s\<lparr>stale := (if thread_alive s then consecutive_errors s # stale s else stale s),
          thread_alive := True, consecutive_errors := 0\<rparr>)"

text \<open>
  The body of the \<open>try\<close> block of \<open>start_recording\<close>. \<open>Inl\<close> is an exception, with
  the state at the point where it was raised.
\<close>

definition start_try :: "env \<Rightarrow> transcriber \<Rightarrow> transcriber + transcriber" where
  "start_try ev s =
     (let s1 = emit OpenStream s in
      if \<not> open_ok ev then Inl s1
      else
        let s2 = s1\<lparr>stream_set := True\<rparr>;
            s3 = emit Cue (emit (Print BeepWaking) s2)
        in
          if \<not> cue_ok ev 0 then Inl s3
          else
            let s4 = emit (Sleep 500) s3;
                s5 = emit Cue (emit (Print BeepReady) s4)
            in
              if \<not> cue_ok ev 1 then Inl s5
              else
                let s6 = warmup ev s5;
                    s7 = emit (Print RecordingNow) s6
                in Inr (thread_start s7))"

definition start_recording :: "env \<Rightarrow> transcriber \<Rightarrow> transcriber" where
  "start_recording ev s =
     (if is_recording s then s
      else
        let s1 = s\<lparr>is_recording := True, audio_frames := [], recording_error := False\<rparr>;
            s2 = emit CreatePyAudio (s1\<lparr>p_set := True\<rparr>)
        in case start_try ev s2 of
             Inr s3 \<Rightarrow> s3
           | Inl s3 \<Rightarrow>
               (let s4 = (emit (Print ErrorOpeningStream) s3)\<lparr>is_recording := False\<rparr>
                in if p_set s4 then emit Terminate s4 else s4))"

subsection \<open>The capture loop \<open>_record\<close>\<close>

definition max_consecutive_errors :: nat where
  "max_consecutive_errors = 5"

text \<open>
  The body of the \<open>while\<close> loop, for one answer of \<open>stream.read\<close>. A \<open>break\<close>
  ends the thread.
\<close>

definition record_body :: "read_result \<Rightarrow> transcriber \<Rightarrow> transcriber" where
  "record_body r s =
     (let s1 = emit StreamRead s in
      case r of
        Data d \<Rightarrow> s1\<lparr>audio_frames := audio_frames s1 @ [d], consecutive_errors := 0\<rparr>
      | OSError \<Rightarrow>
          (let s2 = s1\<lparr>consecutive_errors := consecutive_errors s1 + 1\<rparr> in
           if consecutive_errors s2 \<ge> max_consecutive_errors
           then (emit (Print AudioStreamError) s2)
                  \<lparr>recording_error := True, is_recording := False, thread_alive := False\<rparr>
           else emit (Sleep 10) s2)
      | OtherError \<Rightarrow>
          (emit (Print UnexpectedError) s1)
            \<lparr>recording_error := True, is_recording := False, thread_alive := False\<rparr>)"

text \<open>The body, then the loop condition \<open>while self.is_recording\<close>.\<close>

definition record_iter :: "read_result \<Rightarrow> transcriber \<Rightarrow> transcriber" where
  "record_iter r s =
     (let s1 = record_body r s
      in if thread_alive s1 \<and> is_recording s1 then s1 else s1\<lparr>thread_alive := False\<rparr>)"

text \<open>
  The loop over the answers the device gives before the next hotkey event; the thread
  reads only as long as it is alive.
\<close>

fun record_loop :: "read_result list \<Rightarrow> transcriber \<Rightarrow> transcriber" where
  "record_loop [] s = s"
| "record_loop (r # rs) s = (if thread_alive s then record_loop rs (record_iter r s) else s)"




subsection \<open>Normalisation of the buffer\<close>

text \<open>
  \<open>np.frombuffer(audio_data, dtype=np.int16)\<close>: pairs of bytes, low byte first, read
  as two's complement; a buffer of odd length raises \<open>ValueError\<close> (\<open>None\<close>).
\<close>

definition int16_le :: "byte \<Rightarrow> byte \<Rightarrow> int16" where
  "int16_le lo hi = word_of_nat (unat lo + 256 * unat hi)"

fun frombuffer :: "byte list \<Rightarrow> int16 list option" where
  "frombuffer [] = Some []"
| "frombuffer [b] = None"
| "frombuffer (lo # hi # bs) =
     (case frombuffer bs of None \<Rightarrow> None | Some ws \<Rightarrow> Some (int16_le lo hi # ws))"

text \<open>\<open>.astype(np.float32) / 32768.0\<close>, exact on every 16-bit sample.\<close>

definition to_float :: "int16 \<Rightarrow> rat" where
  "to_float w = of_int (sint w) / 32768"

text \<open>
  \<open>b''.join(self.audio_frames)\<close>, then \<open>np.frombuffer\<close> and the division: the
  waveform \<open>audio_np\<close>.
\<close>

definition normalize :: "chunk list \<Rightarrow> rat list option" where
  "normalize frames =
     (case frombuffer (concat frames) of None \<Rightarrow> None | Some ws \<Rightarrow> Some (map to_float ws))"

text \<open>
  \<open>np.abs(audio_np).mean()\<close>. The absolute values are exact; the mean is numpy's, in
  float32, and is the answer of the environment.
\<close>

definition volume :: "env \<Rightarrow> rat list \<Rightarrow> rat option" where
  "volume ev audio_np = float32_mean ev (map abs audio_np)"

text \<open>
  \<open>volume < 0.001\<close>. A \<open>nan\<close> compares false. No float32 number lies between
  1/1000 and the double or the float32 number nearest to it, so that for a float32
  \<open>volume\<close> the comparison is the comparison with 1/1000.
\<close>

definition too_quiet :: "env \<Rightarrow> rat list \<Rightarrow> bool" where
  "too_quiet ev audio_np = (case volume ev audio_np of None \<Rightarrow> False | Some v \<Rightarrow> v < 1 / 1000)"

subsection \<open>Joining the segments\<close>

text \<open>The code points below 256 that \<open>str.strip\<close> removes.\<close>

definition is_space :: "char \<Rightarrow> bool" where
  "is_space c = (of_char c \<in> {9, 10, 11, 12, 13, 28, 29, 30, 31, 32, 133, 160 :: nat})"

definition strip :: "string \<Rightarrow> string" where
  "strip x = rev (dropWhile is_space (rev (dropWhile is_space x)))"

fun join :: "string \<Rightarrow> string list \<Rightarrow> string" where
  "join sep [] = []"
| "join sep [x] = x"
| "join sep (x # y # ys) = x @ sep @ join sep (y # ys)"

definition segments_text :: "string list \<Rightarrow> string" where
  "segments_text segs = join '' '' (map strip segs)"

subsection \<open>type_text and stop_recording\<close>

definition type_text :: "env \<Rightarrow> string \<Rightarrow> transcriber \<Rightarrow> transcriber" where
  "type_text ev text s =
     (let s1 = emit (TypeText text) (emit (Sleep 100) s)
      in if type_ok ev text then emit (Print TextTyped) s1
         else emit (Print (TextWas text)) (emit (Print ErrorTypingText) s1))"

text \<open>
  The body of the \<open>try\<close> block around the transcription. \<open>Inl\<close> is an exception,
  with the state at the point where it was raised.
\<close>

definition transcribe_try :: "env \<Rightarrow> transcriber \<Rightarrow> transcriber + transcriber" where
  "transcribe_try ev s =
     (case normalize (audio_frames s) of
        None \<Rightarrow> Inl s
      | Some audio_np \<Rightarrow>
          (if too_quiet ev audio_np then Inr (emit (Print TooQuiet) s)
           else
             let s1 = emit (Print (Processing (length audio_np))) s;
                 s2 = emit (Transcribe audio_np) s1
             in case engine ev audio_np of
                  None \<Rightarrow> Inl s2
                | Some segs \<Rightarrow>
                    (let text = segments_text segs in
                     if text \<noteq> [] then Inr (type_text ev text (emit (Print (Transcribed text)) s2))
                     else Inr (emit (Print NoSpeechInAudio) s2))))"

text \<open>From \<open># Check for recording errors\<close> to the end of \<open>stop_recording\<close>.\<close>

definition process :: "env \<Rightarrow> transcriber \<Rightarrow> transcriber" where
  "process ev s =
     (if recording_error s then (emit (Print RecordingHadErrors) s)\<lparr>audio_frames := []\<rparr>
      else if audio_frames s = [] then emit (Print NoAudioRecorded) s
      else case transcribe_try ev s of
             Inr s1 \<Rightarrow> s1
           | Inl s1 \<Rightarrow> emit PrintTraceback (emit (Print ErrorDuringTranscription) s1))"

text \<open>\<open>time.sleep(0.1)\<close>, and what the capture thread does in the meantime.\<close>

definition pause :: "env \<Rightarrow> transcriber \<Rightarrow> transcriber" where
  "pause ev s =
     (let s1 = emit (Sleep 100) s in
      if \<not> thread_alive s1 then s1
      else case drained ev of
             StillReading \<Rightarrow> s1
           | ReadReturned r \<Rightarrow> record_iter r s1
           | LeftAtCheck \<Rightarrow> s1\<lparr>thread_alive := False\<rparr>)"

text \<open>Closing the stream, with \<open>except: pass\<close> around it, and \<open>self.p.terminate()\<close>.\<close>

definition close_stream :: "env \<Rightarrow> transcriber \<Rightarrow> transcriber" where
  "close_stream ev s =
     (let s1 =
        (if stream_set s then
           (let s2 = emit StopStream s in
            if \<not> stop_stream_ok ev then s2
            else let s3 = emit CloseStream s2 in (if close_ok ev then s3 else s3))
         else s)
      in if p_set s1 then emit Terminate s1 else s1)"

definition stop_recording :: "env \<Rightarrow> transcriber \<Rightarrow> transcriber" where
  "stop_recording ev s =
     (if \<not> is_recording s then s
      else
        let s1 = s\<lparr>is_recording := False\<rparr>;
            s2 = pause ev s1;
            s3 = emit (Print RecordingStopped) s2;
            s4 = close_stream ev s3
        in process ev s4)"

text \<open>
  The state of a stop-event that has been accepted, at the comment \<open># Check for
  recording errors\<close>: the stream is closed and the buffer is about to be processed.
\<close>

definition entering_processing :: "env \<Rightarrow> transcriber \<Rightarrow> transcriber" where
  "entering_processing ev s =
     close_stream ev (emit (Print RecordingStopped) (pause ev (s\<lparr>is_recording := False\<rparr>)))"

subsection \<open>on_hotkey\<close>

text \<open>
  The handler around the body of \<open>on_hotkey\<close> is not entered in this model: every
  exception that \<open>start_recording\<close> and \<open>stop_recording\<close> can meet is caught
  inside them.
\<close>

definition on_hotkey :: "env \<Rightarrow> key \<Rightarrow> transcriber \<Rightarrow> transcriber" where
  "on_hotkey ev k s =
     (if k = HOTKEY then (if \<not> is_recording s then start_recording ev s else stop_recording ev s)
      else s)"

subsection \<open>Observations on the trace\<close>

definition engine_calls :: "transcriber \<Rightarrow> rat list list" where
  "engine_calls s = concat (map (\<lambda>e. case e of Transcribe a \<Rightarrow> [a] | _ \<Rightarrow> []) (trace s))"

definition injected :: "transcriber \<Rightarrow> string list" where
  "injected s = concat (map (\<lambda>e. case e of TypeText t \<Rightarrow> [t] | _ \<Rightarrow> []) (trace s))"

definition printed :: "transcriber \<Rightarrow> message list" where
  "printed s = concat (map (\<lambda>e. case e of Print m \<Rightarrow> [m] | _ \<Rightarrow> []) (trace s))"

subsection \<open>Notions used to state the properties\<close>

text \<open>\<open>t\<close> differs from \<open>s\<close> in its trace at most.\<close>

definition same_fields :: "transcriber \<Rightarrow> transcriber \<Rightarrow> bool" where
  "same_fields s t = (t\<lparr>trace := trace s\<rparr> = s)"

text \<open>The mean of a list of numbers, taken exactly; it is undefined for no number.\<close>

definition exact_mean :: "rat list \<Rightarrow> rat option" where
  "exact_mean xs = (if xs = [] then None else Some (sum_list xs / of_nat (length xs)))"

text \<open>The samples of one chunk, decoded on its own.\<close>

definition samples_of :: "chunk \<Rightarrow> int16 list" where
  "samples_of f = (case frombuffer f of None \<Rightarrow> [] | Some ws \<Rightarrow> ws)"

text \<open>
  The way back from a normalised value to a sample, as the specification words it:
  multiply by 32768 and read the result as a 16-bit integer.
\<close>

definition quantize :: "rat \<Rightarrow> int16" where
  "quantize x = word_of_int \<lfloor>x * 32768\<rfloor>"

text \<open>
  The order of cues that the specification describes, as a predicate on a trace: two cues,
  no read before the first one, and no read from the second one on (the warm-up reads all
  lie between the two cues).
\<close>

definition second_cue_after_warmup :: "effect list \<Rightarrow> bool" where
  "second_cue_after_warmup tr =
     (length (filter (\<lambda>e. e = Cue) tr) = 2 \<and>
      StreamRead \<notin> set (takeWhile (\<lambda>e. e \<noteq> Cue) tr) \<and>
      StreamRead \<notin> set (dropWhile (\<lambda>e. e \<noteq> Cue) (tl (dropWhile (\<lambda>e. e \<noteq> Cue) tr))))"

subsection \<open>Sample inputs\<close>

text \<open>
  An environment in which every call succeeds, except that every warm-up read raises
  \<open>OSError\<close>; the engine answers with the two segments of the specification's
  scenario C. The mean is the exact one, which is what float32 gives on the sample
  buffers below: the mean of one float32 number is that number.
\<close>

definition ev_ok :: env where
  "ev_ok = \<lparr>open_ok = True, cue_ok = (\<lambda>i. True), warm_read = (\<lambda>i. OSError),
     drained = LeftAtCheck, stop_stream_ok = True, close_ok = True,
     float32_mean = exact_mean,
     engine = (\<lambda>a. Some [''hello '', '' world'']), type_ok = (\<lambda>t. True)\<rparr>"

text \<open>The same, with the capture thread still blocked in its read when the sleep ends.\<close>

definition ev_blocked :: env where
  "ev_blocked = ev_ok\<lparr>drained := StillReading\<rparr>"

text \<open>The same, with an engine that returns no segment.\<close>

definition ev_silent :: env where
  "ev_silent = ev_ok\<lparr>engine := (\<lambda>a. Some [])\<rparr>"

text \<open>A session that has just begun to capture.\<close>

definition capturing :: transcriber where
  "capturing = \<lparr>is_recording = True, audio_frames = [], recording_error = False,
     stream_set = True, p_set = True, thread_alive = True, consecutive_errors = 0,
     stale = [], trace = []\<rparr>"

text \<open>One sample of value 16384 (amplitude 0.5), and one of value 1.\<close>

definition loud :: chunk where
  "loud = [0, 64]"

definition quiet :: chunk where
  "quiet = [1, 0]"


text \<open>
  A buffer of 44 chunks of 1024 samples: 34603 samples of value 33, then 10453 samples
  of value 32. The exact mean of its normalised samples is 1476395 / 1476395008, a
  little below 1/1000. The sum of the samples, in whatever order it is taken, stays a
  multiple of 2^-15 below 2^9 and so is exact in float32; the quotient by the number of
  samples is rounded to the nearest float32 number, 8589935 / 2^33, which is the float32
  number nearest to 1/1000 and lies above it. \<open>ev_rounding\<close> gives that answer.
\<close>

definition boundary_frames :: "chunk list" where
  "boundary_frames =
     replicate 33 (concat (replicate 1024 [33, 0]))
     @ [concat (replicate 811 [33, 0]) @ concat (replicate 213 [32, 0])]
     @ replicate 10 (concat (replicate 1024 [32, 0]))"

definition boundary_audio :: "rat list" where
  "boundary_audio = replicate 34603 (33 / 32768) @ replicate 10453 (32 / 32768)"

definition ev_rounding :: env where
  "ev_rounding = ev_ok\<lparr>float32_mean := (\<lambda>xs. Some (8589935 / 8589934592))\<rparr>"

section \<open>Basic facts\<close>

lemma emit_fields [simp]:
  "is_recording (emit e s) = is_recording s"
  "audio_frames (emit e s) = audio_frames s"
  "recording_error (emit e s) = recording_error s"
  "stream_set (emit e s) = stream_set s"
  "p_set (emit e s) = p_set s"
  "thread_alive (emit e s) = thread_alive s"
  "consecutive_errors (emit e s) = consecutive_errors s"
  "stale (emit e s) = stale s"
  "trace (emit e s) = trace s @ [e]"
  by (simp_all add: emit_def)

lemma warmup_chunks_15: "warmup_chunks = 15"
proof -
  have "\<lfloor>(125 / 8 :: rat)\<rfloor> = 15"
    by (rule floor_unique) simp_all
  then show ?thesis
    by (simp add: warmup_chunks_def RATE_def CHUNK_def)
qed

lemma warmup_read_eq: "warmup_read r s = emit StreamRead s"
  by (cases r) (simp_all add: warmup_read_def)

lemma foldl_emit: "foldl (\<lambda>t i. emit e t) s is = s\<lparr>trace := trace s @ replicate (length is) e\<rparr>"
proof (induction "is" arbitrary: s)
  case Nil
  then show ?case by simp
next
  case (Cons i "is")
  show ?case
    unfolding foldl_Cons Cons.IH by (simp add: emit_def)
qed

lemma warmup_eq: "warmup ev s = s\<lparr>trace := trace s @ replicate 15 StreamRead\<rparr>"
  by (simp add: warmup_def warmup_read_eq foldl_emit warmup_chunks_15)

lemma start_recording_busy: "is_recording s \<Longrightarrow> start_recording ev s = s"
  by (simp add: start_recording_def)

lemma stop_recording_idle: "\<not> is_recording s \<Longrightarrow> stop_recording ev s = s"
  by (simp add: stop_recording_def)

lemma start_recording_ok:
  assumes "\<not> is_recording s" "open_ok ev" "cue_ok ev 0" "cue_ok ev 1"
  shows "start_recording ev s =
    s\<lparr>is_recording := True, audio_frames := [], recording_error := False,
      stream_set := True, p_set := True, thread_alive := True, consecutive_errors := 0,
      stale := (if thread_alive s then consecutive_errors s # stale s else stale s),
      trace := trace s @ [CreatePyAudio, OpenStream, Print BeepWaking, Cue, Sleep 500,
        Print BeepReady, Cue] @ replicate 15 StreamRead @ [Print RecordingNow, ThreadStart]\<rparr>"
  using assms
  by (simp add: start_recording_def start_try_def thread_start_def warmup_eq emit_def Let_def)

lemma start_recording_resets:
  assumes "\<not> is_recording s"
  shows "audio_frames (start_recording ev s) = [] \<and> \<not> recording_error (start_recording ev s)"
  using assms
  by (simp add: start_recording_def start_try_def thread_start_def warmup_eq Let_def)


lemma record_iter_Data:
  assumes "thread_alive s" "is_recording s"
  shows "record_iter (Data d) s =
    s\<lparr>audio_frames := audio_frames s @ [d], consecutive_errors := 0,
      trace := trace s @ [StreamRead]\<rparr>"
  using assms by (simp add: record_iter_def record_body_def emit_def)

lemma record_iter_OSError_retry:
  assumes "thread_alive s" "is_recording s" "consecutive_errors s + 1 < 5"
  shows "record_iter OSError s =
    s\<lparr>consecutive_errors := consecutive_errors s + 1,
      trace := trace s @ [StreamRead, Sleep 10]\<rparr>"
  using assms
  by (simp add: record_iter_def record_body_def emit_def max_consecutive_errors_def)

lemma record_iter_OSError_fatal:
  assumes "consecutive_errors s + 1 \<ge> 5"
  shows "record_iter OSError s =
    s\<lparr>is_recording := False, recording_error := True, thread_alive := False,
      consecutive_errors := consecutive_errors s + 1,
      trace := trace s @ [StreamRead, Print AudioStreamError]\<rparr>"
  using assms
  by (simp add: record_iter_def record_body_def emit_def max_consecutive_errors_def)

lemma record_iter_OtherError:
  "record_iter OtherError s =
    s\<lparr>is_recording := False, recording_error := True, thread_alive := False,
      trace := trace s @ [StreamRead, Print UnexpectedError]\<rparr>"
  by (simp add: record_iter_def record_body_def emit_def)

lemma record_loop_dead: "\<not> thread_alive s \<Longrightarrow> record_loop rs s = s"
  by (cases rs) simp_all

lemma prefix_replicate_le:
  assumes "prefix (replicate m x) ys" "k \<le> m"
  shows "prefix (replicate k x) ys"
proof -
  have "replicate m x = replicate k x @ replicate (m - k) x"
    using assms(2) by (simp add: replicate_add [symmetric])
  then have "prefix (replicate k x) (replicate m x)"
    by (metis prefixI)
  then show ?thesis
    using assms(1) by (rule prefix_order.trans)
qed

lemma record_loop_faults_iff_gen:
  assumes "thread_alive s" "is_recording s" "\<not> recording_error s"
    "consecutive_errors s < 5" "OtherError \<notin> set rs"
  shows "recording_error (record_loop rs s) \<longleftrightarrow>
    prefix (replicate (5 - consecutive_errors s) OSError) rs \<or> sublist (replicate 5 OSError) rs"
  using assms
proof (induction rs arbitrary: s)
  case Nil
  then show ?case by simp
next
  case (Cons r rs)
  show ?case
  proof (cases r)
    case (Data d)
    let ?s1 = "record_iter (Data d) s"
    have s1: "?s1 = s\<lparr>audio_frames := audio_frames s @ [d], consecutive_errors := 0,
      trace := trace s @ [StreamRead]\<rparr>"
      using Cons.prems by (simp add: record_iter_Data)
    have "recording_error (record_loop rs ?s1) \<longleftrightarrow>
      prefix (replicate (5 - consecutive_errors ?s1) OSError) rs \<or> sublist (replicate 5 OSError) rs"
      using Cons.prems by (intro Cons.IH) (simp_all add: s1)
    then have "recording_error (record_loop rs ?s1) \<longleftrightarrow> sublist (replicate 5 OSError) rs"
      by (auto simp: s1)
    moreover have "\<not> prefix (replicate (5 - consecutive_errors s) OSError) (Data d # rs)"
      using Cons.prems(4) by (cases "5 - consecutive_errors s") (simp_all add: prefix_Cons)
    moreover have "\<not> prefix (replicate 5 OSError) (Data d # rs)"
      by (simp add: numeral_eq_Suc)
    ultimately show ?thesis
      using Cons.prems(1) by (simp add: Data sublist_Cons_right)
  next
    case OSError
    show ?thesis
    proof (cases "consecutive_errors s + 1 < 5")
      case True
      let ?s1 = "record_iter OSError s"
      have s1: "?s1 = s\<lparr>consecutive_errors := consecutive_errors s + 1,
        trace := trace s @ [StreamRead, Sleep 10]\<rparr>"
        using Cons.prems True by (simp add: record_iter_OSError_retry)
      have ih: "recording_error (record_loop rs ?s1) \<longleftrightarrow>
        prefix (replicate (5 - consecutive_errors ?s1) OSError) rs \<or> sublist (replicate 5 OSError) rs"
        using Cons.prems True by (intro Cons.IH) (simp_all add: s1)
      define k where "k = 5 - consecutive_errors ?s1"
      have n: "5 - consecutive_errors s = Suc k"
        using True by (simp add: s1 k_def)
      have a: "prefix (replicate (Suc k) OSError) (OSError # rs) \<longleftrightarrow> prefix (replicate k OSError) rs"
        by simp
      have b: "sublist (replicate 5 OSError) (OSError # rs) \<longleftrightarrow>
        prefix (replicate 4 OSError) rs \<or> sublist (replicate 5 OSError) rs"
        by (simp add: sublist_Cons_right numeral_eq_Suc)
      have c: "prefix (replicate k OSError) rs" if "prefix (replicate 4 OSError) rs"
      proof (rule prefix_replicate_le [OF that])
        show "k \<le> 4"
          by (simp add: s1 k_def)
      qed
      have "recording_error (record_loop (OSError # rs) s) = recording_error (record_loop rs ?s1)"
        using Cons.prems(1) by simp
      then show ?thesis
        unfolding OSError n using ih a b c k_def by blast
    next
      case False
      then have s1: "record_iter OSError s =
        s\<lparr>is_recording := False, recording_error := True, thread_alive := False,
          consecutive_errors := consecutive_errors s + 1,
          trace := trace s @ [StreamRead, Print AudioStreamError]\<rparr>"
        by (simp add: record_iter_OSError_fatal)
      have "5 - consecutive_errors s = Suc 0"
        using False Cons.prems(4) by simp
      then show ?thesis
        using Cons.prems(1) by (simp add: OSError s1 record_loop_dead)
    qed
  next
    case OtherError
    then show ?thesis using Cons.prems(5) by simp
  qed
qed

lemma record_loop_faults_iff:
  assumes "thread_alive s" "is_recording s" "\<not> recording_error s"
    "consecutive_errors s = 0" "OtherError \<notin> set rs"
  shows "recording_error (record_loop rs s) \<longleftrightarrow> sublist (replicate 5 OSError) rs"
  using record_loop_faults_iff_gen [of s rs] assms by auto

lemma observers_emit [simp]:
  "engine_calls (emit e s) = engine_calls s @ (case e of Transcribe a \<Rightarrow> [a] | _ \<Rightarrow> [])"
  "injected (emit e s) = injected s @ (case e of TypeText t \<Rightarrow> [t] | _ \<Rightarrow> [])"
  "printed (emit e s) = printed s @ (case e of Print m \<Rightarrow> [m] | _ \<Rightarrow> [])"
  by (simp_all add: engine_calls_def injected_def printed_def emit_def)

lemma observers_update [simp]:
  "engine_calls (s\<lparr>is_recording := b\<rparr>) = engine_calls s"
  "engine_calls (s\<lparr>audio_frames := fs\<rparr>) = engine_calls s"
  "engine_calls (s\<lparr>recording_error := b\<rparr>) = engine_calls s"
  "engine_calls (s\<lparr>thread_alive := b\<rparr>) = engine_calls s"
  "engine_calls (s\<lparr>consecutive_errors := n\<rparr>) = engine_calls s"
  "injected (s\<lparr>is_recording := b\<rparr>) = injected s"
  "injected (s\<lparr>audio_frames := fs\<rparr>) = injected s"
  "injected (s\<lparr>recording_error := b\<rparr>) = injected s"
  "injected (s\<lparr>thread_alive := b\<rparr>) = injected s"
  "injected (s\<lparr>consecutive_errors := n\<rparr>) = injected s"
  "printed (s\<lparr>is_recording := b\<rparr>) = printed s"
  "printed (s\<lparr>audio_frames := fs\<rparr>) = printed s"
  "printed (s\<lparr>recording_error := b\<rparr>) = printed s"
  "printed (s\<lparr>thread_alive := b\<rparr>) = printed s"
  "printed (s\<lparr>consecutive_errors := n\<rparr>) = printed s"
  by (simp_all add: engine_calls_def injected_def printed_def)

lemma record_body_fields [simp]:
  "stream_set (record_body r s) = stream_set s"
  "p_set (record_body r s) = p_set s"
  "engine_calls (record_body r s) = engine_calls s"
  "injected (record_body r s) = injected s"
  by (cases r, simp_all add: record_body_def Let_def)+

lemma record_body_keeps:
  "\<not> is_recording s \<Longrightarrow> \<not> is_recording (record_body r s)"
  "recording_error s \<Longrightarrow> recording_error (record_body r s)"
  by (cases r, simp_all add: record_body_def Let_def)+

lemma record_iter_fields [simp]:
  "stream_set (record_iter r s) = stream_set s"
  "p_set (record_iter r s) = p_set s"
  "engine_calls (record_iter r s) = engine_calls s"
  "injected (record_iter r s) = injected s"
  by (simp_all add: record_iter_def Let_def)

lemma record_iter_keeps:
  "\<not> is_recording s \<Longrightarrow> \<not> is_recording (record_iter r s)"
  "\<not> is_recording s \<Longrightarrow> \<not> thread_alive (record_iter r s)"
  "recording_error s \<Longrightarrow> recording_error (record_iter r s)"
  by (simp_all add: record_iter_def Let_def record_body_keeps)

lemma pause_fields [simp]:
  "stream_set (pause ev s) = stream_set s"
  "p_set (pause ev s) = p_set s"
  "engine_calls (pause ev s) = engine_calls s"
  "injected (pause ev s) = injected s"
  by (simp_all add: pause_def Let_def split: drain.split)

lemma pause_keeps:
  "\<not> is_recording s \<Longrightarrow> \<not> is_recording (pause ev s)"
  "recording_error s \<Longrightarrow> recording_error (pause ev s)"
  by (simp_all add: pause_def Let_def record_iter_keeps split: drain.split)

lemma close_stream_fields [simp]:
  "is_recording (close_stream ev s) = is_recording s"
  "audio_frames (close_stream ev s) = audio_frames s"
  "recording_error (close_stream ev s) = recording_error s"
  "thread_alive (close_stream ev s) = thread_alive s"
  "consecutive_errors (close_stream ev s) = consecutive_errors s"
  "stream_set (close_stream ev s) = stream_set s"
  "p_set (close_stream ev s) = p_set s"
  "engine_calls (close_stream ev s) = engine_calls s"
  "injected (close_stream ev s) = injected s"
  by (simp_all add: close_stream_def Let_def)

lemma type_text_fields [simp]:
  "is_recording (type_text ev t s) = is_recording s"
  "audio_frames (type_text ev t s) = audio_frames s"
  "recording_error (type_text ev t s) = recording_error s"
  "thread_alive (type_text ev t s) = thread_alive s"
  "consecutive_errors (type_text ev t s) = consecutive_errors s"
  "stream_set (type_text ev t s) = stream_set s"
  "p_set (type_text ev t s) = p_set s"
  "engine_calls (type_text ev t s) = engine_calls s"
  "injected (type_text ev t s) = injected s @ [t]"
  by (simp_all add: type_text_def Let_def)

lemma same_fields_refl [simp]: "same_fields s s"
  by (simp add: same_fields_def)

lemma same_fields_emit [simp]: "same_fields s (emit e t) = same_fields s t"
  by (simp add: same_fields_def emit_def)

lemma same_fields_type_text [simp]: "same_fields s (type_text ev x t) = same_fields s t"
  by (simp add: type_text_def Let_def)

lemma same_fieldsD:
  assumes "same_fields s t"
  shows "is_recording t = is_recording s" "audio_frames t = audio_frames s"
    "recording_error t = recording_error s" "thread_alive t = thread_alive s"
    "consecutive_errors t = consecutive_errors s" "stream_set t = stream_set s"
    "p_set t = p_set s"
proof -
  have "t\<lparr>trace := trace s\<rparr> = s"
    using assms by (simp add: same_fields_def)
  then have eq: "f s = f (t\<lparr>trace := trace s\<rparr>)" for f :: "transcriber \<Rightarrow> 'a"
    by simp
  show "is_recording t = is_recording s" using eq [of is_recording] by simp
  show "audio_frames t = audio_frames s" using eq [of audio_frames] by simp
  show "recording_error t = recording_error s" using eq [of recording_error] by simp
  show "thread_alive t = thread_alive s" using eq [of thread_alive] by simp
  show "consecutive_errors t = consecutive_errors s" using eq [of consecutive_errors] by simp
  show "stream_set t = stream_set s" using eq [of stream_set] by simp
  show "p_set t = p_set s" using eq [of p_set] by simp
qed

lemma transcribe_try_same:
  "case transcribe_try ev s of Inl t \<Rightarrow> same_fields s t | Inr t \<Rightarrow> same_fields s t"
  by (simp add: transcribe_try_def Let_def split: option.split)

lemma process_same:
  "\<not> recording_error s \<Longrightarrow> same_fields s (process ev s)"
  using transcribe_try_same [where ev = ev and s = s]
  by (simp add: process_def split: sum.splits)

lemma process_fields [simp]:
  "is_recording (process ev s) = is_recording s"
  "recording_error (process ev s) = recording_error s"
  "thread_alive (process ev s) = thread_alive s"
  "consecutive_errors (process ev s) = consecutive_errors s"
  "stream_set (process ev s) = stream_set s"
  "p_set (process ev s) = p_set s"
  "audio_frames (process ev s) = (if recording_error s then [] else audio_frames s)"
proof -
  consider (faulted) "recording_error s" | (healthy) "\<not> recording_error s"
    by blast
  then have "is_recording (process ev s) = is_recording s
    \<and> recording_error (process ev s) = recording_error s
    \<and> thread_alive (process ev s) = thread_alive s
    \<and> consecutive_errors (process ev s) = consecutive_errors s
    \<and> stream_set (process ev s) = stream_set s
    \<and> p_set (process ev s) = p_set s
    \<and> audio_frames (process ev s) = (if recording_error s then [] else audio_frames s)"
  proof cases
    case faulted
    then show ?thesis by (simp add: process_def)
  next
    case healthy
    from same_fieldsD [OF process_same [OF healthy, of ev]] healthy
    show ?thesis by simp
  qed
  then show
    "is_recording (process ev s) = is_recording s"
    "recording_error (process ev s) = recording_error s"
    "thread_alive (process ev s) = thread_alive s"
    "consecutive_errors (process ev s) = consecutive_errors s"
    "stream_set (process ev s) = stream_set s"
    "p_set (process ev s) = p_set s"
    "audio_frames (process ev s) = (if recording_error s then [] else audio_frames s)"
    by blast+
qed

lemma stop_recording_idle_after:
  "\<not> is_recording (stop_recording ev s)"
  by (simp add: stop_recording_def Let_def pause_keeps)

section \<open>The sample session\<close>

lemma normalize_loud: "normalize [loud] = Some [1 / 2]"
  by (simp add: normalize_def loud_def to_float_def int16_le_def)

lemma normalize_quiet: "normalize [quiet] = Some [1 / 32768]"
  by (simp add: normalize_def quiet_def to_float_def int16_le_def)

lemma too_quiet_samples:
  assumes "float32_mean ev = exact_mean"
  shows "\<not> too_quiet ev [1 / 2]" "too_quiet ev [1 / 32768]"
  using assms by (simp_all add: too_quiet_def volume_def exact_mean_def)

lemma hello_world: "segments_text [''hello '', '' world''] = ''hello world''"
  by (simp add: segments_text_def strip_def is_space_def)


section \<open>The cues of an accepted start-event\<close>

lemma start_recording_trace:
  assumes "\<not> is_recording s" "open_ok ev" "cue_ok ev 0" "cue_ok ev 1"
  shows "trace (start_recording ev s) =
    trace s @ [CreatePyAudio, OpenStream, Print BeepWaking, Cue, Sleep 500, Print BeepReady, Cue]
      @ replicate 15 StreamRead @ [Print RecordingNow, ThreadStart]"
  by (simp add: start_recording_ok [OF assms])

lemma trace_start_ok_init:
  "trace (start_recording ev_ok init) =
    [CreatePyAudio, OpenStream, Print BeepWaking, Cue, Sleep 500, Print BeepReady, Cue]
      @ replicate 15 StreamRead @ [Print RecordingNow, ThreadStart]"
proof -
  have "\<not> is_recording init" "open_ok ev_ok" "cue_ok ev_ok 0" "cue_ok ev_ok 1"
    by (simp_all add: init_def ev_ok_def)
  from start_recording_trace [OF this] show ?thesis
    by (simp add: init_def)
qed

text \<open>
  C8, as the specification states it, fails: with a device that opens and a cue player
  that works, the second cue is followed by all the warm-up reads.
\<close>

theorem second_cue_precedes_warmup_counterexample:
  "\<not> second_cue_after_warmup (trace (start_recording ev_ok init))"
  by (simp add: trace_start_ok_init second_cue_after_warmup_def numeral_eq_Suc)

text \<open>
  C8, amended. On an accepted start-event whose device opens and whose cue player does
  not raise, the cue is fired exactly twice: the first right after the device is opened,
  the second after a fixed pause of 0.5 s; the warm-up reads all follow the second cue,
  and the capture thread is started after the last of them.
\<close>

theorem cue_order_on_start:
  assumes "\<not> is_recording s" "open_ok ev" "cue_ok ev 0" "cue_ok ev 1"
  shows "trace (start_recording ev s) =
    trace s @ [CreatePyAudio, OpenStream, Print BeepWaking, Cue, Sleep 500, Print BeepReady, Cue]
      @ replicate warmup_chunks StreamRead @ [Print RecordingNow, ThreadStart]
    \<and> is_recording (start_recording ev s) \<and> thread_alive (start_recording ev s)"
  by (simp add: start_recording_ok [OF assms] warmup_chunks_15)

theorem cue_order_on_start_witness:
  "\<not> is_recording init \<and> open_ok ev_ok \<and> cue_ok ev_ok 0 \<and> cue_ok ev_ok 1
   \<and> trace (start_recording ev_ok init) =
    [CreatePyAudio, OpenStream, Print BeepWaking, Cue, Sleep 500, Print BeepReady, Cue]
      @ replicate 15 StreamRead @ [Print RecordingNow, ThreadStart]"
proof -
  have h: "\<not> is_recording init" "open_ok ev_ok" "cue_ok ev_ok 0" "cue_ok ev_ok 1"
    by (simp_all add: init_def ev_ok_def)
  from cue_order_on_start [OF h] h show ?thesis
    by (simp add: init_def warmup_chunks_15)
qed

section \<open>The warm-up\<close>

lemma start_recording_ignores_warm_read:
  "start_recording (ev\<lparr>warm_read := f\<rparr>) s = start_recording ev s"
  by (simp add: start_recording_def start_try_def thread_start_def warmup_eq Let_def)

text \<open>
  C9. An accepted start-event whose device opens makes 15 warm-up reads, the whole
  chunks of 1024 samples that fit into 1.0 s at 16000 Hz, after the second cue and before
  the capture thread is started. Whatever these reads return or raise, the warm-up adds
  nothing but the read calls to the trace: the state after \<open>start_recording\<close> does
  not depend on their results, the error flag is clear and the capture loop starts with
  its counter of consecutive errors at 0.
\<close>

theorem warmup_discard_swallows_faults:
  "warmup_chunks = 15 \<and> warmup_chunks * CHUNK \<le> RATE \<and> RATE < (warmup_chunks + 1) * CHUNK
   \<and> warmup ev s = s\<lparr>trace := trace s @ replicate warmup_chunks StreamRead\<rparr>
   \<and> start_recording (ev\<lparr>warm_read := f\<rparr>) s = start_recording ev s
   \<and> (\<not> is_recording s \<and> open_ok ev \<and> cue_ok ev 0 \<and> cue_ok ev 1 \<longrightarrow>
        trace (start_recording ev s) =
          trace s @ [CreatePyAudio, OpenStream, Print BeepWaking, Cue, Sleep 500,
            Print BeepReady, Cue]
          @ replicate warmup_chunks StreamRead @ [Print RecordingNow, ThreadStart]
        \<and> is_recording (start_recording ev s) \<and> thread_alive (start_recording ev s)
        \<and> \<not> recording_error (start_recording ev s)
        \<and> consecutive_errors (start_recording ev s) = 0
        \<and> audio_frames (start_recording ev s) = [])"
proof -
  have "warmup ev s = s\<lparr>trace := trace s @ replicate warmup_chunks StreamRead\<rparr>"
    by (simp add: warmup_eq warmup_chunks_15)
  moreover have "warmup_chunks * CHUNK \<le> RATE \<and> RATE < (warmup_chunks + 1) * CHUNK"
    by (simp add: warmup_chunks_15 CHUNK_def RATE_def)
  moreover have "trace (start_recording ev s) =
          trace s @ [CreatePyAudio, OpenStream, Print BeepWaking, Cue, Sleep 500,
            Print BeepReady, Cue]
          @ replicate warmup_chunks StreamRead @ [Print RecordingNow, ThreadStart]
        \<and> is_recording (start_recording ev s) \<and> thread_alive (start_recording ev s)
        \<and> \<not> recording_error (start_recording ev s)
        \<and> consecutive_errors (start_recording ev s) = 0
        \<and> audio_frames (start_recording ev s) = []"
    if "\<not> is_recording s" "open_ok ev" "cue_ok ev 0" "cue_ok ev 1"
    by (simp add: start_recording_ok [OF that] warmup_chunks_15)
  ultimately show ?thesis
    by (simp add: warmup_chunks_15 start_recording_ignores_warm_read)
qed

theorem warmup_discard_swallows_faults_witness:
  "warm_read ev_ok 0 = OSError \<and> \<not> is_recording init \<and> open_ok ev_ok \<and> cue_ok ev_ok 0 \<and> cue_ok ev_ok 1
   \<and> trace (start_recording ev_ok init) =
        [CreatePyAudio, OpenStream, Print BeepWaking, Cue, Sleep 500, Print BeepReady, Cue]
        @ replicate 15 StreamRead @ [Print RecordingNow, ThreadStart]
   \<and> is_recording (start_recording ev_ok init) \<and> thread_alive (start_recording ev_ok init)
   \<and> \<not> recording_error (start_recording ev_ok init)
   \<and> consecutive_errors (start_recording ev_ok init) = 0
   \<and> start_recording (ev_ok\<lparr>warm_read := (\<lambda>i. Data loud)\<rparr>) init = start_recording ev_ok init"
  using warmup_discard_swallows_faults [of ev_ok init "\<lambda>i. Data loud"]
  by (simp add: init_def ev_ok_def)

section \<open>The stop path always ends idle\<close>

lemma on_hotkey_toggle:
  "on_hotkey ev HOTKEY s = (if is_recording s then stop_recording ev s else start_recording ev s)"
  by (simp add: on_hotkey_def)

lemma last_trace_process:
  "last (trace (process ev s)) \<in>
     {Print RecordingHadErrors, Print NoAudioRecorded, Print TooQuiet, PrintTraceback,
      Print NoSpeechInAudio, Print TextTyped} \<union> range (\<lambda>t. Print (TextWas t))"
  by (simp add: process_def transcribe_try_def type_text_def Let_def
      split: option.split)

lemma segments_text_Nil: "segments_text [] = []"
  by (simp add: segments_text_def)

lemma stop_branches:
  "last (trace (stop_recording (ev_ok\<lparr>drained := ReadReturned OtherError\<rparr>)
     (capturing\<lparr>audio_frames := [loud]\<rparr>))) = Print RecordingHadErrors"
  "last (trace (stop_recording ev_ok capturing)) = Print NoAudioRecorded"
  "last (trace (stop_recording ev_ok (capturing\<lparr>audio_frames := [quiet]\<rparr>))) = Print TooQuiet"
  "last (trace (stop_recording (ev_ok\<lparr>engine := (\<lambda>a. None)\<rparr>)
     (capturing\<lparr>audio_frames := [loud]\<rparr>))) = PrintTraceback"
  "last (trace (stop_recording ev_silent (capturing\<lparr>audio_frames := [loud]\<rparr>))) = Print NoSpeechInAudio"
  "last (trace (stop_recording (ev_ok\<lparr>type_ok := (\<lambda>t. False)\<rparr>)
     (capturing\<lparr>audio_frames := [loud]\<rparr>))) = Print (TextWas ''hello world'')"
  "last (trace (stop_recording ev_ok (capturing\<lparr>audio_frames := [loud]\<rparr>))) = Print TextTyped"
  by (simp_all add: stop_recording_def pause_def close_stream_def process_def transcribe_try_def
      type_text_def emit_def capturing_def ev_ok_def ev_silent_def normalize_loud normalize_quiet
      too_quiet_def volume_def exact_mean_def hello_world record_iter_def record_body_def segments_text_Nil Let_def)

text \<open>
  C4. A stop-event handled while recording ends with \<open>is_recording\<close> clear in every
  environment, that is in each of the seven branches (faulted buffer, empty buffer, audio
  too quiet, an exception in the transcription block, empty text, a typing error,
  success), the last effect of the handler being the report of that branch; every
  exception raised on the way is caught inside \<open>stop_recording\<close> or \<open>type_text\<close>,
  and the next hotkey event is a start-event that is accepted with a fresh buffer.
\<close>

theorem stop_always_returns_to_idle:
  assumes "is_recording s"
  shows "\<not> is_recording (stop_recording ev s)
    \<and> on_hotkey ev HOTKEY s = stop_recording ev s
    \<and> last (trace (stop_recording ev s)) \<in>
         {Print RecordingHadErrors, Print NoAudioRecorded, Print TooQuiet, PrintTraceback,
          Print NoSpeechInAudio, Print TextTyped} \<union> range (\<lambda>t. Print (TextWas t))
    \<and> on_hotkey ev' HOTKEY (stop_recording ev s) = start_recording ev' (stop_recording ev s)
    \<and> audio_frames (start_recording ev' (stop_recording ev s)) = []
    \<and> \<not> recording_error (start_recording ev' (stop_recording ev s))
    \<and> (open_ok ev' \<and> cue_ok ev' 0 \<and> cue_ok ev' 1 \<longrightarrow>
          is_recording (start_recording ev' (stop_recording ev s))
          \<and> thread_alive (start_recording ev' (stop_recording ev s)))"
proof -
  let ?t = "stop_recording ev s"
  have idle: "\<not> is_recording ?t"
    by (rule stop_recording_idle_after)
  have last: "last (trace ?t) \<in>
         {Print RecordingHadErrors, Print NoAudioRecorded, Print TooQuiet, PrintTraceback,
          Print NoSpeechInAudio, Print TextTyped} \<union> range (\<lambda>t. Print (TextWas t))"
    using assms last_trace_process by (simp add: stop_recording_def Let_def)
  have fresh: "audio_frames (start_recording ev' ?t) = [] \<and> \<not> recording_error (start_recording ev' ?t)"
    using idle by (rule start_recording_resets)
  have again: "is_recording (start_recording ev' ?t) \<and> thread_alive (start_recording ev' ?t)"
    if "open_ok ev'" "cue_ok ev' 0" "cue_ok ev' 1"
    by (simp add: start_recording_ok [OF idle that])
  show ?thesis
    using assms idle last fresh again by (simp add: on_hotkey_toggle)
qed

theorem stop_always_returns_to_idle_witness:
  "is_recording capturing
   \<and> \<not> is_recording (stop_recording (ev_ok\<lparr>drained := ReadReturned OtherError\<rparr>)
        (capturing\<lparr>audio_frames := [loud]\<rparr>))
   \<and> \<not> is_recording (stop_recording ev_ok capturing)
   \<and> \<not> is_recording (stop_recording ev_ok (capturing\<lparr>audio_frames := [quiet]\<rparr>))
   \<and> \<not> is_recording (stop_recording (ev_ok\<lparr>engine := (\<lambda>a. None)\<rparr>)
        (capturing\<lparr>audio_frames := [loud]\<rparr>))
   \<and> \<not> is_recording (stop_recording ev_silent (capturing\<lparr>audio_frames := [loud]\<rparr>))
   \<and> \<not> is_recording (stop_recording (ev_ok\<lparr>type_ok := (\<lambda>t. False)\<rparr>)
        (capturing\<lparr>audio_frames := [loud]\<rparr>))
   \<and> \<not> is_recording (stop_recording ev_ok (capturing\<lparr>audio_frames := [loud]\<rparr>))
   \<and> is_recording (start_recording ev_ok (stop_recording ev_ok (capturing\<lparr>audio_frames := [loud]\<rparr>)))"
proof -
  have rec: "is_recording (capturing\<lparr>audio_frames := fs\<rparr>)" for fs
    by (simp add: capturing_def)
  have ok: "open_ok ev_ok \<and> cue_ok ev_ok 0 \<and> cue_ok ev_ok 1"
    by (simp add: ev_ok_def)
  have same: "capturing\<lparr>audio_frames := []\<rparr> = capturing"
    by (simp add: capturing_def)
  show ?thesis
    using rec [of "[]"] ok
      stop_always_returns_to_idle [OF rec, of "ev_ok\<lparr>drained := ReadReturned OtherError\<rparr>" "[loud]" ev_ok]
      stop_always_returns_to_idle [OF rec, of ev_ok "[]" ev_ok]
      stop_always_returns_to_idle [OF rec, of ev_ok "[quiet]" ev_ok]
      stop_always_returns_to_idle [OF rec, of "ev_ok\<lparr>engine := (\<lambda>a. None)\<rparr>" "[loud]" ev_ok]
      stop_always_returns_to_idle [OF rec, of ev_silent "[loud]" ev_ok]
      stop_always_returns_to_idle [OF rec, of "ev_ok\<lparr>type_ok := (\<lambda>t. False)\<rparr>" "[loud]" ev_ok]
      stop_always_returns_to_idle [OF rec, of ev_ok "[loud]" ev_ok]
    by (simp add: same)
qed

section \<open>The state in which the buffer is processed\<close>

lemma stop_recording_process:
  "is_recording s \<Longrightarrow> stop_recording ev s = process ev (entering_processing ev s)"
  by (simp add: stop_recording_def entering_processing_def Let_def)

lemma entering_processing_fields [simp]:
  "engine_calls (entering_processing ev s) = engine_calls s"
  "injected (entering_processing ev s) = injected s"
  "\<not> is_recording (entering_processing ev s)"
  by (simp_all add: entering_processing_def pause_keeps)

lemma entering_processing_left:
  assumes "drained ev = LeftAtCheck"
  shows "audio_frames (entering_processing ev s) = audio_frames s"
    "recording_error (entering_processing ev s) = recording_error s"
  using assms by (simp_all add: entering_processing_def pause_def Let_def)

section \<open>The debounce rule\<close>

lemma foldr_start_busy: "is_recording s \<Longrightarrow> foldr start_recording evs s = s"
  by (induction evs) (simp_all add: start_recording_busy)

lemma foldr_stop_idle: "\<not> is_recording t \<Longrightarrow> foldr stop_recording evs t = t"
  by (induction evs) (simp_all add: stop_recording_idle)

lemma on_hotkey_other: "k \<noteq> HOTKEY \<Longrightarrow> on_hotkey ev k s = s"
  by (simp add: on_hotkey_def)

text \<open>
  C2, as the specification states it, fails for Processing: \<open>stop_recording\<close> clears
  \<open>is_recording\<close> in its first statement, so that in the state in which the buffer is
  processed a start-event is accepted and changes the state; and a key press made during
  Processing, handled when the handler of the stop-event has returned, starts a new
  session.
\<close>

theorem start_during_processing_counterexample:
  "is_recording (capturing\<lparr>audio_frames := [loud]\<rparr>)
   \<and> \<not> is_recording (entering_processing ev_ok (capturing\<lparr>audio_frames := [loud]\<rparr>))
   \<and> is_recording (start_recording ev_ok
        (entering_processing ev_ok (capturing\<lparr>audio_frames := [loud]\<rparr>)))
   \<and> start_recording ev_ok (entering_processing ev_ok (capturing\<lparr>audio_frames := [loud]\<rparr>))
       \<noteq> entering_processing ev_ok (capturing\<lparr>audio_frames := [loud]\<rparr>)
   \<and> is_recording (on_hotkey ev_ok HOTKEY
        (on_hotkey ev_ok HOTKEY (capturing\<lparr>audio_frames := [loud]\<rparr>)))"
proof -
  let ?s = "capturing\<lparr>audio_frames := [loud]\<rparr>"
  let ?p = "entering_processing ev_ok ?s"
  have rec: "is_recording ?s"
    by (simp add: capturing_def)
  have ok: "open_ok ev_ok" "cue_ok ev_ok 0" "cue_ok ev_ok 1"
    by (simp_all add: ev_ok_def)
  have idle: "\<not> is_recording ?p"
    by simp
  from start_recording_ok [OF idle ok]
  have acc: "is_recording (start_recording ev_ok ?p)"
    by simp
  with idle have ne: "start_recording ev_ok ?p \<noteq> ?p"
    by metis
  have idle2: "\<not> is_recording (stop_recording ev_ok ?s)"
    by (rule stop_recording_idle_after)
  from start_recording_ok [OF idle2 ok]
  have "is_recording (start_recording ev_ok (stop_recording ev_ok ?s))"
    by simp
  then have again: "is_recording (on_hotkey ev_ok HOTKEY (on_hotkey ev_ok HOTKEY ?s))"
    using rec idle2 by (simp add: on_hotkey_toggle)
  from rec idle acc ne again show ?thesis
    by (intro conjI)
qed

text \<open>
  C2, amended. A start-event that arrives while \<open>is_recording\<close> holds (Priming and
  Recording) returns the state as it is, trace included, and so does a stop-event that
  arrives while it does not hold, for every environment and for any number of repeated
  events; a key other than the hotkey changes nothing. The rule looks at this one flag
  only, not at the time. The flag does not cover Processing: it is clear in the state in
  which the buffer is processed, a start-event is accepted there, and the hotkey pressed
  after a stop-event starts a new session.
\<close>

theorem hotkey_debounce_by_flag:
  assumes "is_recording s" and "\<not> is_recording t"
  shows "start_recording ev s = s \<and> stop_recording ev t = t
    \<and> foldr start_recording evs s = s \<and> foldr stop_recording evs t = t
    \<and> (k \<noteq> HOTKEY \<longrightarrow> on_hotkey ev k s = s \<and> on_hotkey ev k t = t)
    \<and> stop_recording ev s = process ev (entering_processing ev s)
    \<and> \<not> is_recording (entering_processing ev s)
    \<and> (open_ok ev' \<and> cue_ok ev' 0 \<and> cue_ok ev' 1 \<longrightarrow>
          is_recording (start_recording ev' (entering_processing ev s))
        \<and> is_recording (on_hotkey ev' HOTKEY (stop_recording ev s)))"
proof -
  have a: "start_recording ev s = s \<and> stop_recording ev t = t
    \<and> foldr start_recording evs s = s \<and> foldr stop_recording evs t = t"
    using assms
    by (simp add: start_recording_busy stop_recording_idle foldr_start_busy foldr_stop_idle)
  have b: "stop_recording ev s = process ev (entering_processing ev s)"
    using assms(1) by (rule stop_recording_process)
  have c: "is_recording (start_recording ev' (entering_processing ev s))
        \<and> is_recording (on_hotkey ev' HOTKEY (stop_recording ev s))"
    if ok: "open_ok ev'" "cue_ok ev' 0" "cue_ok ev' 1"
  proof -
    have "\<not> is_recording (entering_processing ev s)"
      by simp
    from start_recording_ok [OF this ok]
    have 1: "is_recording (start_recording ev' (entering_processing ev s))"
      by simp
    have "\<not> is_recording (stop_recording ev s)"
      by (rule stop_recording_idle_after)
    from start_recording_ok [OF this ok] this
    have "is_recording (on_hotkey ev' HOTKEY (stop_recording ev s))"
      by (simp add: on_hotkey_toggle)
    with 1 show ?thesis ..
  qed
  show ?thesis
    using a b c by (simp add: on_hotkey_other)
qed

theorem hotkey_debounce_by_flag_witness:
  "is_recording capturing \<and> \<not> is_recording init
   \<and> start_recording ev_ok capturing = capturing \<and> stop_recording ev_ok init = init
   \<and> foldr start_recording [ev_ok, ev_blocked] capturing = capturing
   \<and> foldr stop_recording [ev_ok, ev_blocked] init = init
   \<and> on_hotkey ev_ok (OtherKey 0) capturing = capturing
   \<and> is_recording (start_recording ev_ok (entering_processing ev_ok capturing))"
proof -
  have a: "is_recording capturing" by (simp add: capturing_def)
  have b: "\<not> is_recording init" by (simp add: init_def)
  have ok: "open_ok ev_ok \<and> cue_ok ev_ok 0 \<and> cue_ok ev_ok 1"
    by (simp add: ev_ok_def)
  show ?thesis
    using a b ok hotkey_debounce_by_flag [OF a b, of ev_ok "[ev_ok, ev_blocked]" "OtherKey 0" ev_ok]
    by (simp add: HOTKEY_def)
qed

section \<open>The hand-off of the buffer on a stop-event\<close>

lemma trace_record_iter: "prefix (trace s) (trace (record_iter r s))"
  by (cases r) (simp_all add: record_iter_def record_body_def Let_def)

lemma trace_pause: "prefix (trace s @ [Sleep 100]) (trace (pause ev s))"
proof (cases "thread_alive s")
  case False
  then show ?thesis by (simp add: pause_def Let_def)
next
  case True
  show ?thesis
  proof (cases "drained ev")
    case StillReading
    then show ?thesis by (simp add: pause_def Let_def)
  next
    case (ReadReturned r)
    have "prefix (trace (emit (Sleep 100) s)) (trace (record_iter r (emit (Sleep 100) s)))"
      by (rule trace_record_iter)
    then show ?thesis
      using True ReadReturned by (simp add: pause_def Let_def)
  next
    case LeftAtCheck
    then show ?thesis by (simp add: pause_def Let_def)
  qed
qed

lemma trace_close_stream: "prefix (trace s) (trace (close_stream ev s))"
  by (simp add: close_stream_def Let_def)

lemma trace_process: "prefix (trace s) (trace (process ev s))"
  by (simp add: process_def transcribe_try_def type_text_def Let_def split: option.split)

lemma trace_stop_recording:
  assumes "is_recording s"
  shows "prefix (trace s @ [Sleep 100]) (trace (stop_recording ev s))"
proof -
  let ?a = "pause ev (s\<lparr>is_recording := False\<rparr>)"
  let ?b = "emit (Print RecordingStopped) ?a"
  let ?c = "close_stream ev ?b"
  have "prefix (trace s @ [Sleep 100]) (trace ?a)"
    using trace_pause [of "s\<lparr>is_recording := False\<rparr>" ev] by simp
  also have "prefix (trace ?a) (trace ?b)"
    by simp
  also have "prefix (trace ?b) (trace ?c)"
    by (rule trace_close_stream)
  also have "prefix (trace ?c) (trace (process ev ?c))"
    by (rule trace_process)
  finally show ?thesis
    using assms by (simp add: stop_recording_def Let_def)
qed

lemma pause_still_reading:
  "drained ev = StillReading \<Longrightarrow> pause ev s = emit (Sleep 100) s"
  by (simp add: pause_def Let_def)

lemma stop_blocked_loud:
  "stop_recording ev_blocked (capturing\<lparr>audio_frames := [loud]\<rparr>) =
     \<lparr>is_recording = False, audio_frames = [loud], recording_error = False,
      stream_set = True, p_set = True, thread_alive = True, consecutive_errors = 0,
      stale = [], trace = [Sleep 100, Print RecordingStopped, StopStream, CloseStream, Terminate,
        Print (Processing 1), Transcribe [1 / 2], Print (Transcribed ''hello world''),
        Sleep 100, TypeText ''hello world'', Print TextTyped]\<rparr>"
  by (simp add: stop_recording_def pause_def close_stream_def process_def transcribe_try_def
      type_text_def emit_def capturing_def ev_ok_def ev_blocked_def normalize_loud
      too_quiet_def volume_def exact_mean_def hello_world Let_def)

text \<open>
  C3, as the specification states it, fails: when the capture thread is still blocked in
  its read at the end of the pause, the thread is alive after \<open>stop_recording\<close>, no
  fault has been recorded, and the buffer has been read all the same: it has been handed
  to the engine and the text has been typed.
\<close>

theorem unjoined_loop_counterexample:
  "thread_alive (stop_recording ev_blocked (capturing\<lparr>audio_frames := [loud]\<rparr>))
   \<and> \<not> recording_error (stop_recording ev_blocked (capturing\<lparr>audio_frames := [loud]\<rparr>))
   \<and> engine_calls (stop_recording ev_blocked (capturing\<lparr>audio_frames := [loud]\<rparr>)) = [[1 / 2]]
   \<and> injected (stop_recording ev_blocked (capturing\<lparr>audio_frames := [loud]\<rparr>)) = [''hello world'']"
  by (simp add: stop_blocked_loud engine_calls_def injected_def)

text \<open>
  C3, amended. On a stop-event received while recording, the controller clears
  \<open>is_recording\<close> and then sleeps for a fixed 0.1 s, the first thing it does; it
  neither waits for the capture loop to end nor tests whether it has. When the loop is
  still blocked in its read at the end of the pause, the thread stays alive, the error
  flag is what it was, and the stream is closed and the buffer processed as it stands.
\<close>

theorem stop_sleeps_without_joining:
  assumes "is_recording s"
  shows "prefix (trace s @ [Sleep 100]) (trace (stop_recording ev s))
    \<and> (drained ev = StillReading \<longrightarrow>
          thread_alive (stop_recording ev s) = thread_alive s
        \<and> recording_error (stop_recording ev s) = recording_error s
        \<and> stop_recording ev s =
            process ev (close_stream ev (emit (Print RecordingStopped)
              (emit (Sleep 100) (s\<lparr>is_recording := False\<rparr>)))))"
  using assms trace_stop_recording [OF assms, of ev]
  by (simp add: stop_recording_def Let_def pause_still_reading)

theorem stop_sleeps_without_joining_witness:
  "is_recording (capturing\<lparr>audio_frames := [loud]\<rparr>) \<and> drained ev_blocked = StillReading
   \<and> thread_alive (stop_recording ev_blocked (capturing\<lparr>audio_frames := [loud]\<rparr>))
   \<and> \<not> recording_error (stop_recording ev_blocked (capturing\<lparr>audio_frames := [loud]\<rparr>))
   \<and> take 1 (trace (stop_recording ev_blocked (capturing\<lparr>audio_frames := [loud]\<rparr>))) = [Sleep 100]"
proof -
  have h: "is_recording (capturing\<lparr>audio_frames := [loud]\<rparr>)"
    by (simp add: capturing_def)
  have d: "drained ev_blocked = StillReading"
    by (simp add: ev_blocked_def)
  from stop_sleeps_without_joining [OF h, of ev_blocked] d
  have "thread_alive (stop_recording ev_blocked (capturing\<lparr>audio_frames := [loud]\<rparr>))
    \<and> \<not> recording_error (stop_recording ev_blocked (capturing\<lparr>audio_frames := [loud]\<rparr>))"
    by (simp add: capturing_def)
  then show ?thesis
    using h d by (simp add: stop_blocked_loud)
qed

section \<open>Five consecutive read faults\<close>

lemma record_iter_dichotomy:
  assumes "thread_alive s" "is_recording s" "\<not> recording_error s"
  shows "(recording_error (record_iter r s) \<and> \<not> is_recording (record_iter r s)
            \<and> \<not> thread_alive (record_iter r s))
       \<or> (\<not> recording_error (record_iter r s) \<and> is_recording (record_iter r s)
            \<and> thread_alive (record_iter r s))"
proof (cases r)
  case (Data d)
  then show ?thesis using assms by (simp add: record_iter_Data)
next
  case OSError
  show ?thesis
  proof (cases "consecutive_errors s + 1 < 5")
    case True
    then show ?thesis using assms OSError by (simp add: record_iter_OSError_retry)
  next
    case False
    then show ?thesis using OSError by (simp add: record_iter_OSError_fatal)
  qed
next
  case OtherError
  then show ?thesis by (simp add: record_iter_OtherError)
qed

lemma record_loop_dichotomy:
  assumes "thread_alive s" "is_recording s" "\<not> recording_error s"
  shows "(recording_error (record_loop rs s) \<and> \<not> is_recording (record_loop rs s)
            \<and> \<not> thread_alive (record_loop rs s))
       \<or> (\<not> recording_error (record_loop rs s) \<and> is_recording (record_loop rs s)
            \<and> thread_alive (record_loop rs s))"
  using assms
proof (induction rs arbitrary: s)
  case Nil
  then show ?case by simp
next
  case (Cons r rs)
  from record_iter_dichotomy [OF Cons.prems, of r]
  show ?case
  proof
    assume dead: "recording_error (record_iter r s) \<and> \<not> is_recording (record_iter r s)
      \<and> \<not> thread_alive (record_iter r s)"
    then have "record_loop rs (record_iter r s) = record_iter r s"
      by (simp add: record_loop_dead)
    then show ?thesis
      using dead Cons.prems(1) by simp
  next
    assume live: "\<not> recording_error (record_iter r s) \<and> is_recording (record_iter r s)
      \<and> thread_alive (record_iter r s)"
    then have "(recording_error (record_loop rs (record_iter r s))
          \<and> \<not> is_recording (record_loop rs (record_iter r s))
          \<and> \<not> thread_alive (record_loop rs (record_iter r s)))
       \<or> (\<not> recording_error (record_loop rs (record_iter r s))
          \<and> is_recording (record_loop rs (record_iter r s))
          \<and> thread_alive (record_loop rs (record_iter r s)))"
      by (intro Cons.IH) simp_all
    then show ?thesis
      using Cons.prems(1) by simp
  qed
qed

lemma start_recording_engine_calls [simp]:
  "engine_calls (start_recording ev s) = engine_calls s"
  "injected (start_recording ev s) = injected s"
  by (simp_all add: start_recording_def start_try_def thread_start_def warmup_eq Let_def engine_calls_def
      injected_def emit_def)

lemma loop_after_five_faults:
  "record_loop [Data loud, OSError, OSError, OSError, OSError, OSError] capturing =
     \<lparr>is_recording = False, audio_frames = [loud], recording_error = True,
      stream_set = True, p_set = True, thread_alive = False, consecutive_errors = 5,
      stale = [], trace = [StreamRead, StreamRead, Sleep 10, StreamRead, Sleep 10, StreamRead, Sleep 10,
        StreamRead, Sleep 10, StreamRead, Print AudioStreamError]\<rparr>"
  by (simp add: record_iter_def record_body_def emit_def capturing_def
      max_consecutive_errors_def Let_def)

text \<open>
  The branch of \<open>stop_recording\<close> that reports the recording errors and empties the
  buffer is reached when the fifth fault in a row arrives while \<open>stop_recording\<close>
  sleeps, after it has cleared \<open>is_recording\<close> itself.
\<close>

lemma fault_during_pause_discards:
  assumes "is_recording s" "thread_alive s" "consecutive_errors s + 1 \<ge> 5"
    and "drained ev = ReadReturned OSError"
  shows "recording_error (stop_recording ev s) \<and> audio_frames (stop_recording ev s) = []
    \<and> engine_calls (stop_recording ev s) = engine_calls s
    \<and> last (printed (stop_recording ev s)) = RecordingHadErrors"
  using assms
  by (simp add: stop_recording_def pause_def Let_def record_iter_OSError_fatal process_def
      engine_calls_def printed_def emit_def close_stream_def)

text \<open>
  The counter of the capture loop. A chunk that is read is appended to the buffer and
  sets the counter of consecutive errors to 0, and a read that raises \<open>OSError\<close>
  adds 1 to it. A loop that starts with the counter at 0 and meets no other exception
  faults exactly when five such reads occur in a row. It then has set the error flag,
  has cleared \<open>is_recording\<close> and has ended, and nothing of its buffer is handed to
  the engine: the next hotkey event is a start-event. A loop that has not faulted is
  still recording.
\<close>

theorem five_consecutive_faults_end_session:
  assumes "thread_alive s" "is_recording s" "\<not> recording_error s"
    and "consecutive_errors s = 0" "OtherError \<notin> set rs"
  shows "consecutive_errors (record_iter (Data d) s) = 0
    \<and> audio_frames (record_iter (Data d) s) = audio_frames s @ [d]
    \<and> consecutive_errors (record_iter OSError s) = consecutive_errors s + 1
    \<and> (recording_error (record_loop rs s) \<longleftrightarrow> sublist (replicate 5 OSError) rs)
    \<and> (recording_error (record_loop rs s) \<longrightarrow>
          \<not> is_recording (record_loop rs s) \<and> \<not> thread_alive (record_loop rs s)
        \<and> record_loop rs' (record_loop rs s) = record_loop rs s
        \<and> stop_recording ev (record_loop rs s) = record_loop rs s
        \<and> on_hotkey ev HOTKEY (record_loop rs s) = start_recording ev (record_loop rs s)
        \<and> engine_calls (start_recording ev (record_loop rs s)) = engine_calls (record_loop rs s)
        \<and> injected (start_recording ev (record_loop rs s)) = injected (record_loop rs s)
        \<and> audio_frames (start_recording ev (record_loop rs s)) = [])
    \<and> (\<not> recording_error (record_loop rs s) \<longrightarrow>
          is_recording (record_loop rs s) \<and> thread_alive (record_loop rs s))"
proof -
  let ?t = "record_loop rs s"
  have step: "consecutive_errors (record_iter (Data d) s) = 0
    \<and> audio_frames (record_iter (Data d) s) = audio_frames s @ [d]
    \<and> consecutive_errors (record_iter OSError s) = consecutive_errors s + 1"
    using assms(1,2,4) by (simp add: record_iter_Data record_iter_OSError_retry)
  have iff: "recording_error ?t \<longleftrightarrow> sublist (replicate 5 OSError) rs"
    using assms by (rule record_loop_faults_iff)
  have dich: "(recording_error ?t \<and> \<not> is_recording ?t \<and> \<not> thread_alive ?t)
       \<or> (\<not> recording_error ?t \<and> is_recording ?t \<and> thread_alive ?t)"
    using assms(1-3) by (rule record_loop_dichotomy)
  have faulted: "record_loop rs' ?t = ?t \<and> stop_recording ev ?t = ?t
        \<and> on_hotkey ev HOTKEY ?t = start_recording ev ?t
        \<and> engine_calls (start_recording ev ?t) = engine_calls ?t
        \<and> injected (start_recording ev ?t) = injected ?t
        \<and> audio_frames (start_recording ev ?t) = []"
    if "\<not> is_recording ?t" "\<not> thread_alive ?t"
    using that start_recording_resets [OF that(1), of ev]
    by (simp add: record_loop_dead stop_recording_idle on_hotkey_toggle)
  from dich show ?thesis
  proof
    assume f: "recording_error ?t \<and> \<not> is_recording ?t \<and> \<not> thread_alive ?t"
    then have g: "record_loop rs' ?t = ?t \<and> stop_recording ev ?t = ?t
        \<and> on_hotkey ev HOTKEY ?t = start_recording ev ?t
        \<and> engine_calls (start_recording ev ?t) = engine_calls ?t
        \<and> injected (start_recording ev ?t) = injected ?t
        \<and> audio_frames (start_recording ev ?t) = []"
      by (intro faulted) simp_all
    from f iff have "sublist (replicate 5 OSError) rs"
      by (simp only:)
    with f g step iff show ?thesis
      by (simp only: simp_thms)
  next
    assume l: "\<not> recording_error ?t \<and> is_recording ?t \<and> thread_alive ?t"
    with iff have "\<not> sublist (replicate 5 OSError) rs"
      by (simp only: simp_thms)
    with l step iff show ?thesis
      by (simp only: simp_thms)
  qed
qed

theorem five_consecutive_faults_end_session_witness:
  "thread_alive capturing \<and> is_recording capturing \<and> \<not> recording_error capturing
   \<and> consecutive_errors capturing = 0
   \<and> recording_error (record_loop [Data loud, OSError, OSError, OSError, OSError, OSError] capturing)
   \<and> \<not> is_recording (record_loop [Data loud, OSError, OSError, OSError, OSError, OSError] capturing)
   \<and> engine_calls (start_recording ev_ok
        (record_loop [Data loud, OSError, OSError, OSError, OSError, OSError] capturing)) = []
   \<and> audio_frames (start_recording ev_ok
        (record_loop [Data loud, OSError, OSError, OSError, OSError, OSError] capturing)) = []"
proof -
  let ?rs = "[Data loud, OSError, OSError, OSError, OSError, OSError]"
  have h: "thread_alive capturing" "is_recording capturing" "\<not> recording_error capturing"
    "consecutive_errors capturing = 0" "OtherError \<notin> set ?rs"
    by (simp_all add: capturing_def)
  have run: "sublist (replicate 5 OSError) ?rs"
    by (simp add: sublist_Cons_right numeral_eq_Suc)
  from five_consecutive_faults_end_session [OF h, where d = loud and ev = ev_ok] run
  have "recording_error (record_loop ?rs capturing) \<and> \<not> is_recording (record_loop ?rs capturing)
    \<and> engine_calls (start_recording ev_ok (record_loop ?rs capturing))
        = engine_calls (record_loop ?rs capturing)
    \<and> audio_frames (start_recording ev_ok (record_loop ?rs capturing)) = []"
    by blast
  then have a: "recording_error (record_loop ?rs capturing)"
    and b: "\<not> is_recording (record_loop ?rs capturing)"
    and c: "engine_calls (start_recording ev_ok (record_loop ?rs capturing))
        = engine_calls (record_loop ?rs capturing)"
    and d: "audio_frames (start_recording ev_ok (record_loop ?rs capturing)) = []"
    by blast+
  have "engine_calls (record_loop ?rs capturing) = []"
    unfolding loop_after_five_faults by (simp add: engine_calls_def)
  with c have e: "engine_calls (start_recording ev_ok (record_loop ?rs capturing)) = []"
    by (simp only:)
  from h(1-4) a b e d show ?thesis
    by (intro conjI)
qed


section \<open>Normalisation of the buffer\<close>

lemma frombuffer_total:
  "even (length f) \<Longrightarrow> \<exists>ws. frombuffer f = Some ws"
proof (induction f rule: frombuffer.induct)
  case 1
  then show ?case by simp
next
  case (2 x)
  then show ?case by simp
next
  case (3 lo hi bs)
  then obtain ws where "frombuffer bs = Some ws"
    by auto
  then show ?case
    by simp
qed

lemma frombuffer_even:
  assumes "even (length f)"
  shows "frombuffer f = Some (samples_of f)"
proof -
  from frombuffer_total [OF assms] obtain ws where "frombuffer f = Some ws" ..
  then show ?thesis
    by (simp add: samples_of_def)
qed

lemma samples_of_Cons:
  assumes "even (length bs)"
  shows "samples_of (lo # hi # bs) = int16_le lo hi # samples_of bs"
proof -
  from frombuffer_total [OF assms] obtain ws where "frombuffer bs = Some ws" ..
  then show ?thesis
    by (simp add: samples_of_def)
qed

lemma samples_of_append:
  assumes "even (length a)" "even (length b)"
  shows "samples_of (a @ b) = samples_of a @ samples_of b"
  using assms
proof (induction a rule: frombuffer.induct)
  case 1
  then show ?case by (simp add: samples_of_def)
next
  case (2 x)
  then show ?case by simp
next
  case (3 lo hi bs)
  then have "samples_of (bs @ b) = samples_of bs @ samples_of b"
    by simp
  then show ?case
    using 3 by (simp add: samples_of_Cons)
qed

lemma frombuffer_append:
  assumes "even (length a)" "even (length b)"
  shows "frombuffer (a @ b) = Some (samples_of a @ samples_of b)"
proof -
  have "even (length (a @ b))"
    using assms by simp
  then have "frombuffer (a @ b) = Some (samples_of (a @ b))"
    by (rule frombuffer_even)
  then show ?thesis
    using assms by (simp add: samples_of_append)
qed

lemma concat_even: "\<forall>f \<in> set frames. even (length f) \<Longrightarrow> even (length (concat frames))"
  by (induction frames) simp_all

lemma samples_of_concat:
  "\<forall>f \<in> set frames. even (length f) \<Longrightarrow>
     samples_of (concat frames) = concat (map samples_of frames)"
proof (induction frames)
  case Nil
  then show ?case by (simp add: samples_of_def)
next
  case (Cons f frames)
  then show ?case
    by (simp add: samples_of_append concat_even)
qed

lemma frombuffer_concat:
  assumes "\<forall>f \<in> set frames. even (length f)"
  shows "frombuffer (concat frames) = Some (concat (map samples_of frames))"
  using frombuffer_even [OF concat_even [OF assms]] samples_of_concat [OF assms]
  by simp

lemma to_float_range: "- 1 \<le> to_float w \<and> to_float w < 1"
proof -
  have lo: "- 32768 \<le> sint w"
    using sint_ge [of w] by simp
  have hi: "sint w < 32768"
    using sint_lt [of w] by simp
  have "(- 32768 :: rat) \<le> of_int (sint w)"
    using lo by (metis of_int_le_iff of_int_minus of_int_numeral)
  moreover have "(of_int (sint w) :: rat) < 32768"
    using hi by (metis of_int_less_iff of_int_numeral)
  ultimately show ?thesis
    by (simp add: to_float_def field_simps)
qed

lemma to_float_times: "to_float w * 32768 = of_int (sint w)"
  by (simp add: to_float_def)

lemma quantize_to_float: "quantize (to_float w) = w"
proof -
  have "\<lfloor>to_float w * 32768\<rfloor> = sint w"
    unfolding to_float_times by (rule floor_of_int)
  then show ?thesis
    by (simp add: quantize_def)
qed

lemma record_loop_Data:
  "thread_alive s \<Longrightarrow> is_recording s \<Longrightarrow>
     audio_frames (record_loop (map Data ds) s) = audio_frames s @ ds"
proof (induction ds arbitrary: s)
  case Nil
  then show ?case by simp
next
  case (Cons d ds)
  have "audio_frames (record_loop (map Data ds) (record_iter (Data d) s))
      = audio_frames (record_iter (Data d) s) @ ds"
    using Cons.prems by (intro Cons.IH) (simp_all add: record_iter_Data)
  then show ?case
    using Cons.prems by (simp add: record_iter_Data)
qed

text \<open>
  C6. The waveform is a function of the captured chunks alone. For chunks of an even
  number of bytes (the device delivers 2 bytes for each sample) it is the concatenation,
  in the order of the buffer, of the chunks' own samples, each divided by 32768; the
  buffer holds the chunks in the order in which the loop read them. Every value lies in
  the interval from -1 to 1 (1 itself is never reached), and multiplying it by 32768
  gives back the integer sample, so that \<open>quantize\<close> undoes the conversion.
\<close>

theorem normalization_is_exact:
  assumes "\<forall>f \<in> set frames. even (length f)"
  shows "normalize frames = Some (concat (map (\<lambda>f. map to_float (samples_of f)) frames))
    \<and> (\<forall>w. - 1 \<le> to_float w \<and> to_float w < 1
          \<and> to_float w * 32768 = of_int (sint w) \<and> quantize (to_float w) = w)
    \<and> (\<forall>ws. map quantize (map to_float ws) = ws)
    \<and> (thread_alive s \<and> is_recording s \<longrightarrow>
          audio_frames (record_loop (map Data frames) s) = audio_frames s @ frames)"
proof -
  have "normalize frames = Some (concat (map (\<lambda>f. map to_float (samples_of f)) frames))"
    using assms by (simp add: normalize_def frombuffer_concat map_concat comp_def)
  moreover have "map quantize (map to_float ws) = ws" for ws
    by (simp add: quantize_to_float comp_def)
  ultimately show ?thesis
    using to_float_range by (simp add: to_float_times quantize_to_float record_loop_Data)
qed

theorem normalization_is_exact_witness:
  "even (length loud) \<and> even (length quiet)
   \<and> normalize [loud, quiet] = Some [1 / 2, 1 / 32768]
   \<and> quantize (1 / 2) = 16384
   \<and> audio_frames (record_loop [Data loud, Data quiet] capturing) = [loud, quiet]"
proof -
  have h: "\<forall>f \<in> set [loud, quiet]. even (length f)"
    by (simp add: loud_def quiet_def)
  have l: "map to_float (samples_of loud) = [1 / 2]"
    by (simp add: samples_of_def loud_def to_float_def int16_le_def)
  have q: "map to_float (samples_of quiet) = [1 / 32768]"
    by (simp add: samples_of_def quiet_def to_float_def int16_le_def)
  have half: "to_float 16384 = 1 / 2"
    by (simp add: to_float_def)
  have c: "thread_alive capturing \<and> is_recording capturing" "audio_frames capturing = []"
    by (simp_all add: capturing_def)
  from normalization_is_exact [OF h, of capturing]
  have n: "normalize [loud, quiet] = Some (concat (map (\<lambda>f. map to_float (samples_of f)) [loud, quiet]))"
    and r: "quantize (to_float 16384) = 16384"
    and a: "thread_alive capturing \<and> is_recording capturing \<longrightarrow>
          audio_frames (record_loop (map Data [loud, quiet]) capturing) = audio_frames capturing @ [loud, quiet]"
    by blast+
  from n l q have "normalize [loud, quiet] = Some [1 / 2, 1 / 32768]"
    by simp
  moreover from r half have "quantize (1 / 2) = 16384"
    by simp
  moreover from a c have "audio_frames (record_loop [Data loud, Data quiet] capturing) = [loud, quiet]"
    by simp
  ultimately show ?thesis
    by (simp add: loud_def quiet_def)
qed

section \<open>The text that is typed\<close>

lemma strip_split:
  "dropWhile is_space x = strip x @ rev (takeWhile is_space (rev (dropWhile is_space x)))"
proof -
  let ?y = "dropWhile is_space x"
  have "strip x @ rev (takeWhile is_space (rev ?y))
      = rev (takeWhile is_space (rev ?y) @ dropWhile is_space (rev ?y))"
    by (simp only: strip_def rev_append)
  also have "\<dots> = rev (rev ?y)"
    by (simp only: takeWhile_dropWhile_id)
  also have "\<dots> = ?y"
    by simp
  finally show ?thesis
    by simp
qed

lemma strip_decomposes:
  "\<exists>l r. x = l @ strip x @ r \<and> list_all is_space l \<and> list_all is_space r"
proof -
  let ?y = "dropWhile is_space x"
  let ?l = "takeWhile is_space x"
  let ?r = "rev (takeWhile is_space (rev ?y))"
  have y: "?y = strip x @ ?r"
    by (rule strip_split)
  have "x = ?l @ ?y"
    by simp
  with y have "x = ?l @ strip x @ ?r"
    by simp
  moreover have "list_all is_space ?l"
    by (simp add: list_all_iff) (meson set_takeWhileD)
  moreover have "list_all is_space ?r"
    by (simp add: list_all_iff) (meson set_takeWhileD)
  ultimately show ?thesis
    by blast
qed

lemma strip_ends:
  assumes "strip x \<noteq> []"
  shows "\<not> is_space (hd (strip x)) \<and> \<not> is_space (last (strip x))"
proof -
  let ?y = "dropWhile is_space x"
  let ?z = "dropWhile is_space (rev ?y)"
  have z: "?z \<noteq> []"
    using assms by (simp add: strip_def)
  then have "\<not> is_space (hd ?z)"
    by (rule hd_dropWhile)
  moreover have "last (strip x) = hd ?z"
    using z by (simp add: strip_def last_rev)
  moreover have "\<not> is_space (hd (strip x))"
  proof -
    have y: "?y \<noteq> []"
    proof
      assume "?y = []"
      then have "?z = []"
        by (simp only: rev.simps(1) dropWhile.simps(1))
      with z show False ..
    qed
    then have ny: "\<not> is_space (hd ?y)"
      by (rule hd_dropWhile)
    have "?y = strip x @ rev (takeWhile is_space (rev ?y))"
      by (rule strip_split)
    then have "hd ?y = hd (strip x)"
      using assms by (metis hd_append2)
    with ny show ?thesis
      by simp
  qed
  ultimately show ?thesis
    by simp
qed

lemma join_butlast:
  "xs \<noteq> [] \<Longrightarrow> join sep xs = concat (map (\<lambda>x. x @ sep) (butlast xs)) @ last xs"
  by (induction sep xs rule: join.induct) simp_all

lemma process_transcribed:
  assumes "\<not> recording_error s" "audio_frames s \<noteq> []"
    and "normalize (audio_frames s) = Some audio_np" "\<not> too_quiet ev audio_np"
    and "engine ev audio_np = Some segs"
  shows "process ev s =
    (let s2 = emit (Transcribe audio_np) (emit (Print (Processing (length audio_np))) s)
     in if segments_text segs \<noteq> []
        then type_text ev (segments_text segs) (emit (Print (Transcribed (segments_text segs))) s2)
        else emit (Print NoSpeechInAudio) s2)"
  using assms by (simp add: process_def transcribe_try_def Let_def)

text \<open>
  C7. When a healthy buffer that is loud enough is handed to the engine and the engine
  returns the segments \<open>segs\<close>, the text is each segment stripped, with one space
  after every segment but the last; a stripped segment is the segment without a run of
  white space at its front and at its end, and neither begins nor ends with white space.
  A text that is not empty is handed to the keyboard controller, once; an empty text is
  reported as "no speech detected" and nothing is typed. The segments \<open>''hello ''\<close>
  and \<open>'' world''\<close> give \<open>''hello world''\<close>, and no segment gives the empty text.
\<close>

theorem injected_text_is_joined_segments:
  assumes "\<not> recording_error s" "audio_frames s \<noteq> []"
    and "normalize (audio_frames s) = Some audio_np" "\<not> too_quiet ev audio_np"
    and "engine ev audio_np = Some segs"
  shows "engine_calls (process ev s) = engine_calls s @ [audio_np]
    \<and> injected (process ev s) =
        injected s @ (if segments_text segs = [] then [] else [segments_text segs])
    \<and> (segments_text segs = [] \<longrightarrow> last (printed (process ev s)) = NoSpeechInAudio)
    \<and> (segs \<noteq> [] \<longrightarrow>
          segments_text segs = concat (map (\<lambda>x. strip x @ '' '') (butlast segs)) @ strip (last segs))
    \<and> (\<forall>x \<in> set segs.
          (\<exists>l r. x = l @ strip x @ r \<and> list_all is_space l \<and> list_all is_space r)
          \<and> (strip x = [] \<or> \<not> is_space (hd (strip x)) \<and> \<not> is_space (last (strip x))))
    \<and> segments_text [''hello '', '' world''] = ''hello world''
    \<and> segments_text [] = []"
proof -
  note p = process_transcribed [OF assms]
  have a: "engine_calls (process ev s) = engine_calls s @ [audio_np]"
    unfolding p by (simp add: Let_def)
  have b: "injected (process ev s) =
        injected s @ (if segments_text segs = [] then [] else [segments_text segs])"
    unfolding p by (simp add: Let_def)
  have c: "last (printed (process ev s)) = NoSpeechInAudio" if "segments_text segs = []"
    unfolding p using that by (simp add: Let_def)
  have d: "segments_text segs = concat (map (\<lambda>x. strip x @ '' '') (butlast segs)) @ strip (last segs)"
    if "segs \<noteq> []"
    using that by (simp add: segments_text_def join_butlast map_butlast last_map comp_def)
  have e: "(\<exists>l r. x = l @ strip x @ r \<and> list_all is_space l \<and> list_all is_space r)
          \<and> (strip x = [] \<or> \<not> is_space (hd (strip x)) \<and> \<not> is_space (last (strip x)))" for x
    using strip_decomposes [of x] strip_ends [of x] by blast
  show ?thesis
    using a b c d e hello_world segments_text_Nil by (simp only: simp_thms) blast
qed

theorem injected_text_is_joined_segments_witness:
  "\<not> recording_error (capturing\<lparr>is_recording := False, audio_frames := [loud]\<rparr>)
   \<and> normalize [loud] = Some [1 / 2] \<and> \<not> too_quiet ev_ok [1 / 2] \<and> \<not> too_quiet ev_silent [1 / 2]
   \<and> engine ev_ok [1 / 2] = Some [''hello '', '' world'']
   \<and> engine ev_silent [1 / 2] = Some []
   \<and> injected (process ev_ok (capturing\<lparr>is_recording := False, audio_frames := [loud]\<rparr>))
       = [''hello world'']
   \<and> injected (process ev_silent (capturing\<lparr>is_recording := False, audio_frames := [loud]\<rparr>))
       = []
   \<and> last (printed (process ev_silent (capturing\<lparr>is_recording := False, audio_frames := [loud]\<rparr>)))
       = NoSpeechInAudio"
proof -
  let ?s = "capturing\<lparr>is_recording := False, audio_frames := [loud]\<rparr>"
  have h: "\<not> recording_error ?s" "audio_frames ?s \<noteq> []"
    "normalize (audio_frames ?s) = Some [1 / 2]"
    by (simp_all add: capturing_def normalize_loud)
  have q1: "\<not> too_quiet ev_ok [1 / 2]"
    by (rule too_quiet_samples) (simp add: ev_ok_def)
  have q2: "\<not> too_quiet ev_silent [1 / 2]"
    by (rule too_quiet_samples) (simp add: ev_silent_def ev_ok_def)
  have e1: "engine ev_ok [1 / 2] = Some [''hello '', '' world'']"
    by (simp add: ev_ok_def)
  have e2: "engine ev_silent [1 / 2] = Some []"
    by (simp add: ev_silent_def ev_ok_def)
  have i: "injected ?s = []"
    by (simp add: capturing_def injected_def)
  from injected_text_is_joined_segments [OF h q1 e1]
  have "injected (process ev_ok ?s) = injected ?s @ [''hello world'']"
    by (simp add: hello_world)
  with i have a: "injected (process ev_ok ?s) = [''hello world'']"
    by simp
  from injected_text_is_joined_segments [OF h q2 e2]
  have "injected (process ev_silent ?s) = injected ?s
    \<and> last (printed (process ev_silent ?s)) = NoSpeechInAudio"
    by (simp add: segments_text_Nil)
  with i have b: "injected (process ev_silent ?s) = []"
    and c: "last (printed (process ev_silent ?s)) = NoSpeechInAudio"
    by simp_all
  from h(1) normalize_loud q1 q2 e1 e2 a b c show ?thesis
    by (intro conjI)
qed

section \<open>Audio that is too quiet\<close>

lemma process_too_quiet:
  assumes "\<not> recording_error s" "audio_frames s \<noteq> []"
    and "normalize (audio_frames s) = Some audio_np"
    and "volume ev audio_np = Some v" "v < 1 / 1000"
  shows "process ev s = emit (Print TooQuiet) s"
  using assms by (simp add: process_def transcribe_try_def too_quiet_def)

text \<open>
  C5, amended. When the buffer that \<open>stop_recording\<close> examines is not faulted, not
  empty, and the mean absolute amplitude of its normalised samples, as numpy computes it
  in float32, is below 0.001, the handler reports "too quiet" and returns: no call of the
  engine and no injection is added to the trace, and \<open>is_recording\<close> is clear.
\<close>

theorem too_quiet_is_discarded:
  assumes "is_recording s"
    and "b = pause ev (s\<lparr>is_recording := False\<rparr>)"
    and "\<not> recording_error b" "audio_frames b \<noteq> []"
    and "normalize (audio_frames b) = Some audio_np"
    and "volume ev audio_np = Some v" "v < 1 / 1000"
  shows "stop_recording ev s = emit (Print TooQuiet) (close_stream ev (emit (Print RecordingStopped) b))
    \<and> engine_calls (stop_recording ev s) = engine_calls s
    \<and> injected (stop_recording ev s) = injected s
    \<and> \<not> is_recording (stop_recording ev s)"
proof -
  let ?c = "close_stream ev (emit (Print RecordingStopped) b)"
  have "process ev ?c = emit (Print TooQuiet) ?c"
    using assms(3-7) by (intro process_too_quiet [where audio_np = audio_np and v = v]) simp_all
  then have eq: "stop_recording ev s = emit (Print TooQuiet) ?c"
    using assms(1,2) by (simp add: stop_recording_def Let_def)
  show ?thesis
    unfolding eq using assms(2) by (simp add: pause_keeps)
qed

lemma stop_after_quiet:
  "stop_recording ev_ok (capturing\<lparr>audio_frames := [quiet]\<rparr>) =
     \<lparr>is_recording = False, audio_frames = [quiet], recording_error = False,
      stream_set = True, p_set = True, thread_alive = False, consecutive_errors = 0,
      stale = [], trace = [Sleep 100, Print RecordingStopped, StopStream, CloseStream, Terminate,
        Print TooQuiet]\<rparr>"
  by (simp add: stop_recording_def pause_def close_stream_def process_def transcribe_try_def
      emit_def capturing_def ev_ok_def normalize_quiet too_quiet_def volume_def exact_mean_def Let_def)

theorem too_quiet_is_discarded_witness:
  "is_recording (capturing\<lparr>audio_frames := [quiet]\<rparr>)
   \<and> normalize [quiet] = Some [1 / 32768] \<and> volume ev_ok [1 / 32768] = Some (1 / 32768)
   \<and> (1 / 32768 :: rat) < 1 / 1000
   \<and> engine_calls (stop_recording ev_ok (capturing\<lparr>audio_frames := [quiet]\<rparr>)) = []
   \<and> injected (stop_recording ev_ok (capturing\<lparr>audio_frames := [quiet]\<rparr>)) = []
   \<and> \<not> is_recording (stop_recording ev_ok (capturing\<lparr>audio_frames := [quiet]\<rparr>))
   \<and> printed (stop_recording ev_ok (capturing\<lparr>audio_frames := [quiet]\<rparr>))
       = [RecordingStopped, TooQuiet]"
proof -
  let ?s = "capturing\<lparr>audio_frames := [quiet]\<rparr>"
  let ?b = "pause ev_ok (?s\<lparr>is_recording := False\<rparr>)"
  have b: "?b = ?s\<lparr>is_recording := False, thread_alive := False, trace := [Sleep 100]\<rparr>"
    by (simp add: pause_def capturing_def ev_ok_def emit_def)
  have h: "is_recording ?s" "\<not> recording_error ?b" "audio_frames ?b \<noteq> []"
    "normalize (audio_frames ?b) = Some [1 / 32768]"
    "volume ev_ok [1 / 32768] = Some (1 / 32768)" "(1 / 32768 :: rat) < 1 / 1000"
    unfolding b by (simp_all add: capturing_def normalize_quiet volume_def exact_mean_def ev_ok_def)
  from too_quiet_is_discarded [OF h(1) refl h(2-6)]
  have "engine_calls (stop_recording ev_ok ?s) = engine_calls ?s
    \<and> injected (stop_recording ev_ok ?s) = injected ?s
    \<and> \<not> is_recording (stop_recording ev_ok ?s)"
    by blast
  moreover have "engine_calls ?s = []" "injected ?s = []"
    by (simp_all add: capturing_def engine_calls_def injected_def)
  moreover have "printed (stop_recording ev_ok ?s) = [RecordingStopped, TooQuiet]"
    by (simp add: stop_after_quiet printed_def)
  ultimately show ?thesis
    using h(1,5,6) normalize_quiet by simp
qed

lemma length_concat_pairs: "length (concat (replicate n [lo, hi])) = 2 * n"
  by (induction n) simp_all

lemma samples_of_pairs:
  "samples_of (concat (replicate n [lo, hi])) = replicate n (int16_le lo hi)"
proof (induction n)
  case 0
  then show ?case by (simp add: samples_of_def)
next
  case (Suc n)
  have "even (length (concat (replicate n [lo, hi])))"
    by (simp add: length_concat_pairs)
  then show ?case
    using Suc by (simp add: samples_of_Cons)
qed

lemma concat_replicate_replicate:
  "concat (replicate n (replicate k x)) = replicate (n * k) x"
  by (induction n) (simp_all add: replicate_add)

lemma to_float_samples: "to_float (int16_le 33 0) = 33 / 32768" "to_float (int16_le 32 0) = 32 / 32768"
  by (simp_all add: to_float_def int16_le_def)

lemma boundary_even: "\<forall>f \<in> set boundary_frames. even (length f)"
  by (auto simp: boundary_frames_def length_concat_pairs)

lemma boundary_samples:
  "concat (map samples_of boundary_frames)
     = replicate 34603 (int16_le 33 0) @ replicate 10453 (int16_le 32 0)"
proof -
  have mix: "samples_of (concat (replicate 811 [33, 0]) @ concat (replicate 213 [32, 0]))
      = replicate 811 (int16_le 33 0) @ replicate 213 (int16_le 32 0)"
    by (simp add: samples_of_append length_concat_pairs samples_of_pairs)
  have "concat (map samples_of boundary_frames)
      = replicate (33 * 1024) (int16_le 33 0)
        @ (replicate 811 (int16_le 33 0) @ replicate 213 (int16_le 32 0))
        @ replicate (10 * 1024) (int16_le 32 0)"
    unfolding boundary_frames_def
    by (simp only: map_append map_replicate list.map concat_append concat.simps
        samples_of_pairs mix concat_replicate_replicate append_Nil2)
  also have "\<dots> = replicate (33 * 1024 + 811) (int16_le 33 0)
        @ replicate (213 + 10 * 1024) (int16_le 32 0)"
    by (simp only: replicate_add append_assoc)
  finally show ?thesis
    by simp
qed

lemma normalize_boundary: "normalize boundary_frames = Some boundary_audio"
  by (simp add: normalize_def frombuffer_concat [OF boundary_even] boundary_samples
      boundary_audio_def to_float_samples)

lemma exact_mean_boundary:
  "exact_mean (map abs boundary_audio) = Some (1476395 / 1476395008)"
  by (simp add: exact_mean_def boundary_audio_def sum_list_replicate)

text \<open>
  C5, as the specification states it, fails: the exact mean absolute amplitude of the
  boundary buffer is below 1/1000, the float32 number nearest to it is not (it differs
  from the exact mean by less than half the distance of 2^-33 between neighbouring float32
  numbers there), and with that answer of numpy the engine is called and the text is
  typed.
\<close>

theorem rounded_mean_counterexample:
  "normalize boundary_frames = Some boundary_audio
   \<and> exact_mean (map abs boundary_audio) = Some (1476395 / 1476395008)
   \<and> (1476395 / 1476395008 :: rat) < 1 / 1000
   \<and> \<bar>8589935 / 8589934592 - 1476395 / 1476395008\<bar> < (1 / 17179869184 :: rat)
   \<and> (8589935 / 8589934592 :: rat) = 8589935 / 2 ^ 33
   \<and> (2 :: nat) ^ 23 \<le> 8589935 \<and> 8589935 < (2 :: nat) ^ 24
   \<and> volume ev_rounding boundary_audio = Some (8589935 / 8589934592)
   \<and> \<not> recording_error (capturing\<lparr>audio_frames := boundary_frames\<rparr>)
   \<and> engine_calls (stop_recording ev_rounding (capturing\<lparr>audio_frames := boundary_frames\<rparr>))
       = [boundary_audio]
   \<and> injected (stop_recording ev_rounding (capturing\<lparr>audio_frames := boundary_frames\<rparr>))
       = [''hello world'']"
proof -
  let ?s = "capturing\<lparr>audio_frames := boundary_frames\<rparr>"
  let ?b = "entering_processing ev_rounding ?s"
  have d: "drained ev_rounding = LeftAtCheck"
    by (simp add: ev_rounding_def ev_ok_def)
  have v: "volume ev_rounding boundary_audio = Some (8589935 / 8589934592)"
    by (simp add: volume_def ev_rounding_def)
  have loud_enough: "\<not> too_quiet ev_rounding boundary_audio"
    by (simp add: too_quiet_def v)
  have ne: "boundary_frames \<noteq> []"
    by (simp add: boundary_frames_def)
  have h: "\<not> recording_error ?b" "audio_frames ?b \<noteq> []"
    "normalize (audio_frames ?b) = Some boundary_audio"
    using ne by (simp_all add: entering_processing_left [OF d] normalize_boundary capturing_def)
  have e: "engine ev_rounding boundary_audio = Some [''hello '', '' world'']"
    by (simp add: ev_rounding_def ev_ok_def)
  have t: "type_ok ev_rounding ''hello world''"
    by (simp add: ev_rounding_def ev_ok_def)
  have none: "engine_calls capturing = []" "injected capturing = []"
    by (simp_all add: capturing_def engine_calls_def injected_def)
  have stop: "stop_recording ev_rounding ?s = process ev_rounding ?b"
    by (rule stop_recording_process) (simp add: capturing_def)
  have "engine_calls (process ev_rounding ?b) = [boundary_audio]
      \<and> injected (process ev_rounding ?b) = [''hello world'']"
    unfolding process_transcribed [OF h loud_enough e]
    by (simp add: Let_def hello_world none)
  then show ?thesis
    unfolding stop using normalize_boundary exact_mean_boundary v
    by (simp add: capturing_def)
qed

section \<open>A fresh buffer for every session\<close>

lemma record_iter_frames:
  "set (audio_frames (record_iter r s)) \<subseteq> set (audio_frames s) \<union> {d. r = Data d}"
  by (cases r) (auto simp: record_iter_def record_body_def Let_def)

lemma record_loop_frames:
  "set (audio_frames (record_loop rs s)) \<subseteq> set (audio_frames s) \<union> {d. Data d \<in> set rs}"
proof (induction rs arbitrary: s)
  case Nil
  then show ?case by simp
next
  case (Cons r rs)
  show ?case
  proof (cases "thread_alive s")
    case True
    have "set (audio_frames (record_loop rs (record_iter r s)))
      \<subseteq> set (audio_frames (record_iter r s)) \<union> {d. Data d \<in> set rs}"
      by (rule Cons.IH)
    also have "\<dots> \<subseteq> (set (audio_frames s) \<union> {d. r = Data d}) \<union> {d. Data d \<in> set rs}"
      using record_iter_frames [of r s] by blast
    also have "\<dots> \<subseteq> set (audio_frames s) \<union> {d. Data d \<in> set (r # rs)}"
      by auto
    finally show ?thesis
      using True by simp
  next
    case False
    then show ?thesis by auto
  qed
qed


lemma record_iter_stale [simp]: "stale (record_iter r s) = stale s"
  by (cases r) (simp_all add: record_iter_def record_body_def Let_def)










end
